theory Spec2Isabelle
  imports Complex_Main "HOL-Library.Log_Nat"
begin

section \<open>Outcomes of a call\<close>

text \<open>
  The game core of \<^verbatim>\<open>app.component.ts\<close> (both revisions of the file carry the same
  \<^verbatim>\<open>Snake\<close>, \<^verbatim>\<open>CheeseFactory\<close>, \<^verbatim>\<open>Position\<close>, \<^verbatim>\<open>PositionContext\<close> and
  \<^verbatim>\<open>Direction\<close> classes; the later one adds \<^verbatim>\<open>Snake.eat\<close>) is embedded with grid
  coordinates and food counts as \<^typ>\<open>int\<close>. The code holds them in doubles: the
  sums and differences that place a Position on the grid (\<^verbatim>\<open>getWidths\<close>,
  \<^verbatim>\<open>createModified\<close>, \<^verbatim>\<open>applyDomainVector\<close>) are rounded as a double rounds
  them, see the section on numbers. The food counter, the loop counters of
  \<^verbatim>\<open>generatePosition\<close> and the food value of a cheese are computed on integers,
  which is what the code computes while they are below \<open>2 ^ 53\<close>.

  A call that computes a value has one of three outcomes: it returns the value
  (\<open>Some (Inr v)\<close>), it throws (\<open>Some (Inl TypeError)\<close>, reading a property of
  \<^verbatim>\<open>undefined\<close>), or it never returns (\<open>None\<close>, a \<^verbatim>\<open>while\<close> loop that does not
  end). A method that updates its object keeps the updates made before a throw, so its
  outcome is the state it leaves together with the error, if any: \<open>Some (None, s)\<close>
  when it returns, \<open>Some (Some TypeError, s)\<close> when it throws, \<open>None\<close> when it never
  returns.
\<close>

datatype error = TypeError

type_synonym 'a outcome = "(error + 'a) option"

type_synonym 's effect = "(error option \<times> 's) option"

section \<open>Numbers\<close>

text \<open>
  A number of the code is an IEEE double. Those that arise from integers under
  addition and subtraction are the integers a double can hold, the two infinities and
  NaN. \<open>round53\<close> rounds an integer to 53 significant bits, to the nearest such
  value and to the one with an even last bit when two are equally near; \<open>fl\<close> is the
  double that an exact integer result becomes, an infinity once the rounded value
  needs more than 1024 bits (the largest double is \<open>2 ^ 1024 - 2 ^ 971\<close>).
  \<open>bitlen\<close> is the number of bits of a positive integer.
\<close>

datatype number = Num int | PosInf | NegInf | NaN

definition round53 :: "int \<Rightarrow> int" where
  "round53 n =
     (if \<bar>n\<bar> < 2 ^ 53 then n
      else
        (let u = 2 ^ nat (bitlen \<bar>n\<bar> - 53);
             q = \<bar>n\<bar> div u;
             r = \<bar>n\<bar> mod u
         in sgn n * (if 2 * r < u \<or> (2 * r = u \<and> even q) then q else q + 1) * u))"

definition fl :: "int \<Rightarrow> number" where
  "fl n =
     (if bitlen \<bar>round53 n\<bar> \<le> 1024 then Num (round53 n)
      else if 0 < n then PosInf else NegInf)"

text \<open>\<^verbatim>\<open>a + b\<close>, \<^verbatim>\<open>-a\<close>, \<^verbatim>\<open>a - b\<close>, \<^verbatim>\<open>a < b\<close> and \<^verbatim>\<open>a >= b\<close> on these numbers.\<close>

fun num_add :: "number \<Rightarrow> number \<Rightarrow> number" where
  "num_add (Num a) (Num b) = fl (a + b)"
| "num_add (Num a) PosInf = PosInf"
| "num_add (Num a) NegInf = NegInf"
| "num_add (Num a) NaN = NaN"
| "num_add PosInf (Num b) = PosInf"
| "num_add PosInf PosInf = PosInf"
| "num_add PosInf NegInf = NaN"
| "num_add PosInf NaN = NaN"
| "num_add NegInf (Num b) = NegInf"
| "num_add NegInf PosInf = NaN"
| "num_add NegInf NegInf = NegInf"
| "num_add NegInf NaN = NaN"
| "num_add NaN b = NaN"

fun num_neg :: "number \<Rightarrow> number" where
  "num_neg (Num a) = Num (- a)"
| "num_neg PosInf = NegInf"
| "num_neg NegInf = PosInf"
| "num_neg NaN = NaN"

definition num_sub :: "number \<Rightarrow> number \<Rightarrow> number" where
  "num_sub a b = num_add a (num_neg b)"

fun num_lt :: "number \<Rightarrow> number \<Rightarrow> bool" where
  "num_lt (Num a) (Num b) = (a < b)"
| "num_lt (Num a) PosInf = True"
| "num_lt (Num a) NegInf = False"
| "num_lt (Num a) NaN = False"
| "num_lt PosInf b = False"
| "num_lt NegInf (Num b) = True"
| "num_lt NegInf PosInf = True"
| "num_lt NegInf NegInf = False"
| "num_lt NegInf NaN = False"
| "num_lt NaN b = False"

fun num_ge :: "number \<Rightarrow> number \<Rightarrow> bool" where
  "num_ge (Num a) (Num b) = (a \<ge> b)"
| "num_ge (Num a) PosInf = False"
| "num_ge (Num a) NegInf = True"
| "num_ge (Num a) NaN = False"
| "num_ge PosInf (Num b) = True"
| "num_ge PosInf PosInf = True"
| "num_ge PosInf NegInf = True"
| "num_ge PosInf NaN = False"
| "num_ge NegInf (Num b) = False"
| "num_ge NegInf PosInf = False"
| "num_ge NegInf NegInf = True"
| "num_ge NegInf NaN = False"
| "num_ge NaN b = False"

text \<open>
  An integer of magnitude at most \<open>2 ^ 51\<close>. The sum or difference of two such, and
  of that with a third, is below \<open>2 ^ 53\<close> and so is exact in a double.
\<close>

definition safe :: "int \<Rightarrow> bool" where
  "safe n = (\<bar>n\<bar> \<le> 2 ^ 51)"

section \<open>PositionContext\<close>

text \<open>
  Only the grid side of an axis is modelled: \<^verbatim>\<open>domain\<close>, \<^verbatim>\<open>range\<close> and the two
  widths, with integer bounds. The cell width \<^verbatim>\<open>rw / dw\<close> and \<^verbatim>\<open>applyRange\<close> are
  pixel arithmetic used by the drawing code only.
\<close>

record Widths =
  w_range :: number
  w_domain :: number

record AxisPositionContext =
  domain :: "int \<times> int"
  range :: "int \<times> int"
  widths :: Widths

record PositionContext =
  ctx_x :: AxisPositionContext
  ctx_y :: AxisPositionContext

record Interval2D =
  ix :: "int \<times> int"
  iy :: "int \<times> int"

definition getWidths :: "int \<times> int \<Rightarrow> int \<times> int \<Rightarrow> Widths" where
  "getWidths dm rg =
     \<lparr>w_range = num_sub (Num (snd rg)) (Num (fst rg)),
      w_domain = num_sub (Num (snd dm)) (Num (fst dm))\<rparr>"

definition PositionContext_new :: "Interval2D \<Rightarrow> Interval2D \<Rightarrow> PositionContext" where
  "PositionContext_new dm rg =
     \<lparr>ctx_x = \<lparr>domain = ix dm, range = ix rg, widths = getWidths (ix dm) (ix rg)\<rparr>,
      ctx_y = \<lparr>domain = iy dm, range = iy rg, widths = getWidths (iy dm) (iy rg)\<rparr>\<rparr>"

text \<open>
  The two loops of \<^verbatim>\<open>applyDomainVector\<close>, on the numbers of the code. Either may
  run forever (a domain of width zero, or a value so large that adding the width does
  not change it), so each is a partial function and \<open>None\<close> stands for not
  returning.
\<close>

partial_function (option) applyDomainVector_below :: "number \<Rightarrow> AxisPositionContext \<Rightarrow> number option" where
  "applyDomainVector_below val c =
     (if num_lt val (Num (fst (domain c)))
      then applyDomainVector_below (num_add val (w_domain (widths c))) c
      else Some val)"

partial_function (option) applyDomainVector_above :: "number \<Rightarrow> AxisPositionContext \<Rightarrow> number option" where
  "applyDomainVector_above val c =
     (if num_ge val (Num (snd (domain c)))
      then applyDomainVector_above
             (num_add (Num (fst (domain c))) (num_sub val (Num (snd (domain c))))) c
      else Some val)"

declare applyDomainVector_below.simps [code]
declare applyDomainVector_above.simps [code]

definition applyDomainVector :: "number \<Rightarrow> AxisPositionContext \<Rightarrow> number option" where
  "applyDomainVector val c =
     (case applyDomainVector_below val c of
        None \<Rightarrow> None
      | Some v \<Rightarrow> applyDomainVector_above v c)"

definition applyDomain :: "number \<Rightarrow> number \<Rightarrow> PositionContext \<Rightarrow> (number \<times> number) option" where
  "applyDomain x y ctx =
     (case applyDomainVector x (ctx_x ctx) of
        None \<Rightarrow> None
      | Some x' \<Rightarrow>
          (case applyDomainVector y (ctx_y ctx) of
             None \<Rightarrow> None
           | Some y' \<Rightarrow> Some (x', y')))"

text \<open>
  An axis as the constructor builds it, with a non-empty domain and bounds that are
  \<open>safe\<close>: the stored width is \<^verbatim>\<open>domain[1] - domain[0]\<close>, exactly, and it is
  positive.
\<close>

definition axis_ok :: "AxisPositionContext \<Rightarrow> bool" where
  "axis_ok c =
     (w_domain (widths c) = Num (snd (domain c) - fst (domain c)) \<and>
      fst (domain c) < snd (domain c) \<and> safe (fst (domain c)) \<and> safe (snd (domain c)))"

definition context_ok :: "PositionContext \<Rightarrow> bool" where
  "context_ok ctx = (axis_ok (ctx_x ctx) \<and> axis_ok (ctx_y ctx))"

section \<open>Direction\<close>

record Direction =
  d_dx :: int
  d_dy :: int

definition Direction_new :: "int \<Rightarrow> int \<Rightarrow> Direction" where
  "Direction_new a b = \<lparr>d_dx = a, d_dy = b\<rparr>"

definition up :: Direction where "up = Direction_new 0 (-1)"
definition down :: Direction where "down = Direction_new 0 1"
definition left :: Direction where "left = Direction_new (-1) 0"
definition right :: Direction where "right = Direction_new 1 0"

definition isTurn :: "Direction \<Rightarrow> Direction \<Rightarrow> bool" where
  "isTurn this previous =
     (\<not> (d_dx this = d_dx previous \<or> d_dx this = - d_dx previous) \<and>
      \<not> (d_dy this = d_dy previous \<or> d_dy this = - d_dy previous))"

definition opposite :: "Direction \<Rightarrow> Direction" where
  "opposite d = Direction_new (- d_dx d) (- d_dy d)"

text \<open>A direction with \<open>safe\<close> components, as the four of the game are.\<close>

definition direction_ok :: "Direction \<Rightarrow> bool" where
  "direction_ok d = (safe (d_dx d) \<and> safe (d_dy d))"

section \<open>Position\<close>

text \<open>
  Positions are objects: \<^verbatim>\<open>AppComponent.tick\<close> compares them by reference
  (\<^verbatim>\<open>!==\<close>) as well as by \<^verbatim>\<open>equals\<close>. Each \<^verbatim>\<open>new Position\<close> therefore takes
  the number of objects allocated so far, uses it as the identity \<open>oid\<close> of the new
  object and returns the count increased by one.

  A Position of the embedding holds integers. Where the normalisation in the
  constructor returns NaN or an infinity, the code builds a Position that the
  embedding cannot hold, and \<open>Position_new\<close> is \<open>None\<close>. That takes an
  argument that is NaN, a stored width that is not finite or a lower bound that no
  double holds: for any other call \<open>Position_new\<close> is \<open>None\<close> exactly when a
  loop of the normalisation does not end (lemma \<open>Position_new_None\<close>). The
  arguments that the code of the game passes are integers and sums of two integers,
  never NaN.
\<close>

type_synonym heap = nat

record Position =
  oid :: nat
  pos_x :: int
  pos_y :: int
  pos_context :: PositionContext

definition Position_new :: "number \<Rightarrow> number \<Rightarrow> PositionContext \<Rightarrow> heap \<Rightarrow> (Position \<times> heap) option" where
  "Position_new x y ctx h =
     (case applyDomain x y ctx of
        None \<Rightarrow> None
      | Some (x', y') \<Rightarrow>
          (case x' of
             Num a \<Rightarrow>
               (case y' of
                  Num b \<Rightarrow> Some (\<lparr>oid = h, pos_x = a, pos_y = b, pos_context = ctx\<rparr>, Suc h)
                | _ \<Rightarrow> None)
           | _ \<Rightarrow> None))"

definition createModified :: "Position \<Rightarrow> int \<Rightarrow> int \<Rightarrow> heap \<Rightarrow> (Position \<times> heap) option" where
  "createModified this dx dy h =
     Position_new (num_add (Num (pos_x this)) (Num dx)) (num_add (Num (pos_y this)) (Num dy))
       (pos_context this) h"

text \<open>The argument of \<^verbatim>\<open>equals\<close>: \<^verbatim>\<open>undefined\<close>, a Position or a pair \<^verbatim>\<open>[x, y]\<close>.\<close>

datatype other = Undefined | APosition Position | ATuple int int

fun equals :: "Position \<Rightarrow> other \<Rightarrow> bool" where
  "equals this Undefined = False"
| "equals this (APosition p) = (pos_x p = pos_x this \<and> pos_y p = pos_y this)"
| "equals this (ATuple a b) = (a = pos_x this \<and> b = pos_y this)"

fun applyTo :: "Direction \<Rightarrow> Position option \<Rightarrow> heap \<Rightarrow> (Position \<times> heap) outcome" where
  "applyTo d None h = Some (Inl TypeError)"
| "applyTo d (Some position) h =
     (case createModified position (d_dx d) (d_dy d) h of
        None \<Rightarrow> None
      | Some r \<Rightarrow> Some (Inr r))"

section \<open>Snake\<close>

text \<open>
  \<open>died\<close> counts the notifications sent on the \<^verbatim>\<open>_died$\<close> subject, one for each
  call of \<^verbatim>\<open>kill\<close>. \<open>nextDirection\<close> is \<open>None\<close> while the field is
  \<^verbatim>\<open>undefined\<close> or \<^verbatim>\<open>null\<close>.
\<close>

record Snake =
  nextDirection :: "Direction option"
  direction :: Direction
  segments :: "Position list"
  food :: int
  dead :: bool
  died :: nat

record Cheese =
  cheese_position :: Position
  cheese_food :: int

definition head :: "Snake \<Rightarrow> Position option" where
  "head s = (case segments s of [] \<Rightarrow> None | p # _ \<Rightarrow> Some p)"

definition Snake_new :: "Position \<Rightarrow> int \<Rightarrow> Direction \<Rightarrow> Snake" where
  "Snake_new start initialFood initialDirection =
     \<lparr>nextDirection = None, direction = initialDirection, segments = [start],
      food = initialFood, dead = False, died = 0\<rparr>"

definition set_direction :: "Snake \<Rightarrow> Direction \<Rightarrow> Snake" where
  "set_direction s newDirection = s\<lparr>nextDirection := Some newDirection\<rparr>"

definition eat :: "Snake \<Rightarrow> Cheese \<Rightarrow> Snake" where
  "eat s cheese = s\<lparr>food := food s + cheese_food cheese\<rparr>"

definition kill :: "Snake \<Rightarrow> Snake" where
  "kill s = s\<lparr>dead := True, died := Suc (died s)\<rparr>"

text \<open>The first statement of \<^verbatim>\<open>tick\<close>, and \<^verbatim>\<open>tick\<close> itself.\<close>

definition commit_direction :: "Snake \<Rightarrow> Snake" where
  "commit_direction s =
     (case nextDirection s of
        Some d \<Rightarrow> s\<lparr>direction := d, nextDirection := None\<rparr>
      | None \<Rightarrow> s)"

definition Snake_tick :: "Snake \<Rightarrow> heap \<Rightarrow> (Snake \<times> heap) effect" where
  "Snake_tick s h =
     (let s1 = commit_direction s in
      case applyTo (direction s1) (head s1) h of
        None \<Rightarrow> None
      | Some (Inl e) \<Rightarrow> Some (Some e, s1, h)
      | Some (Inr (newhead, h')) \<Rightarrow>
          (let s2 = s1\<lparr>segments := newhead # segments s1\<rparr> in
           if food s2 > 0
           then Some (None, s2\<lparr>food := food s2 - 1\<rparr>, h')
           else Some (None, s2\<lparr>segments := butlast (segments s2)\<rparr>, h')))"

text \<open>
  The public methods of a Snake, and a sequence of calls made on one; the sequence
  stops at the first call that throws.
\<close>

datatype snake_call = Tick | Eat Cheese | Kill | SetDirection Direction

fun calls :: "snake_call list \<Rightarrow> Snake \<Rightarrow> heap \<Rightarrow> (Snake \<times> heap) effect" where
  "calls [] s h = Some (None, s, h)"
| "calls (Tick # cs) s h =
     (case Snake_tick s h of
        None \<Rightarrow> None
      | Some (Some e, s', h') \<Rightarrow> Some (Some e, s', h')
      | Some (None, s', h') \<Rightarrow> calls cs s' h')"
| "calls (Eat c # cs) s h = calls cs (eat s c) h"
| "calls (Kill # cs) s h = calls cs (kill s) h"
| "calls (SetDirection d # cs) s h = calls cs (set_direction s d) h"

fun is_eat :: "snake_call \<Rightarrow> bool" where
  "is_eat (Eat _) = True"
| "is_eat _ = False"

fun ticks :: "snake_call list \<Rightarrow> nat" where
  "ticks [] = 0"
| "ticks (Tick # cs) = Suc (ticks cs)"
| "ticks (_ # cs) = ticks cs"

text \<open>
  A snake whose head exists and lives in a context with non-empty domains, with
  \<open>safe\<close> numbers in the head, the direction and the queued direction, as every
  snake built by \<^verbatim>\<open>initGame\<close> and steered by \<^verbatim>\<open>handleUserInput\<close> is. A call
  of the direction setter keeps it so when the new direction is \<open>safe\<close>.
\<close>

definition snake_ok :: "Snake \<Rightarrow> bool" where
  "snake_ok s =
     ((case segments s of
         [] \<Rightarrow> False
       | p # _ \<Rightarrow> context_ok (pos_context p) \<and> safe (pos_x p) \<and> safe (pos_y p)) \<and>
      direction_ok (direction s) \<and>
      (case nextDirection s of None \<Rightarrow> True | Some d \<Rightarrow> direction_ok d))"

fun call_ok :: "snake_call \<Rightarrow> bool" where
  "call_ok (SetDirection d) = direction_ok d"
| "call_ok _ = True"

text \<open>
  Every segment is an object of its own, allocated before the \<open>h\<close> objects counted
  so far.
\<close>

definition fresh_objects :: "Snake \<Rightarrow> heap \<Rightarrow> bool" where
  "fresh_objects s h = (distinct (map oid (segments s)) \<and> list_all (\<lambda>p. oid p < h) (segments s))"

text \<open>Some segment after the first lies on the cell of the first.\<close>

definition body_hits_head :: "Snake \<Rightarrow> bool" where
  "body_hits_head s =
     (case segments s of
        [] \<Rightarrow> False
      | p # ps \<Rightarrow> list_ex (\<lambda>seg. pos_x seg = pos_x p \<and> pos_y seg = pos_y p) ps)"

section \<open>CheeseFactory\<close>

text \<open>
  \<^verbatim>\<open>Math.random()\<close> is a parameter: a rational \<open>r\<close> with \<open>0 \<le> r < 1\<close>, of which
  the code takes \<^verbatim>\<open>Math.floor(r * n)\<close>. \<^verbatim>\<open>createCheese\<close> draws twice, first for
  the cell and then for the food value.
\<close>

record CheeseFactory =
  f_positionContext :: PositionContext
  f_food :: "int \<times> int"

definition random_ok :: "rat \<Rightarrow> bool" where
  "random_ok r = (0 \<le> r \<and> r < 1)"

definition possible :: "CheeseFactory \<Rightarrow> Snake \<Rightarrow> (int \<times> int) list" where
  "possible f snake =
     [(x, y).
        x \<leftarrow> [fst (domain (ctx_x (f_positionContext f))) .. snd (domain (ctx_x (f_positionContext f))) - 1],
        y \<leftarrow> [fst (domain (ctx_y (f_positionContext f))) .. snd (domain (ctx_y (f_positionContext f))) - 1],
        list_all (\<lambda>seg. \<not> equals seg (ATuple x y)) (segments snake)]"

definition generatePosition :: "CheeseFactory \<Rightarrow> Snake \<Rightarrow> rat \<Rightarrow> heap \<Rightarrow> (Position \<times> heap) outcome" where
  "generatePosition f snake r h =
     (let choice = \<lfloor>r * of_nat (length (possible f snake))\<rfloor> in
      if 0 \<le> choice \<and> choice < int (length (possible f snake))
      then (case Position_new (Num (fst (possible f snake ! nat choice)))
                   (Num (snd (possible f snake ! nat choice))) (f_positionContext f) h of
              None \<Rightarrow> None
            | Some r \<Rightarrow> Some (Inr r))
      else Some (Inl TypeError))"

definition createCheese :: "CheeseFactory \<Rightarrow> Snake \<Rightarrow> rat \<Rightarrow> rat \<Rightarrow> heap \<Rightarrow> (Cheese \<times> heap) outcome" where
  "createCheese f snake r1 r2 h =
     (case generatePosition f snake r1 h of
        None \<Rightarrow> None
      | Some (Inl e) \<Rightarrow> Some (Inl e)
      | Some (Inr (position, h')) \<Rightarrow>
          Some (Inr (\<lparr>cheese_position = position,
                      cheese_food = \<lfloor>r2 * of_int (snd (f_food f) - fst (f_food f))\<rfloor> + fst (f_food f)\<rparr>, h')))"

section \<open>AppComponent\<close>

text \<open>
  The game state of the component; \<open>objects\<close> is the number of Position objects
  allocated so far. The canvas, the timers and the subscriptions are left out.
  \<^verbatim>\<open>initGame\<close> is given as the state it builds; when \<^verbatim>\<open>createCheese\<close> throws,
  no game has been set up.
\<close>

record AppComponent =
  cheeseFactory :: CheeseFactory
  cheese :: Cheese
  snake :: Snake
  positionContext :: PositionContext
  objects :: heap

definition game_context :: PositionContext where
  "game_context = PositionContext_new \<lparr>ix = (0, 20), iy = (0, 20)\<rparr> \<lparr>ix = (0, 640), iy = (0, 480)\<rparr>"

definition game_factory :: CheeseFactory where
  "game_factory = \<lparr>f_positionContext = game_context, f_food = (1, 15)\<rparr>"

definition initGame :: "PositionContext \<Rightarrow> CheeseFactory \<Rightarrow> rat \<Rightarrow> rat \<Rightarrow> heap \<Rightarrow> AppComponent outcome" where
  "initGame ctx f r1 r2 h =
     (case Position_new (Num 5) (Num 5) ctx h of
        None \<Rightarrow> None
      | Some (start, h1) \<Rightarrow>
          (let sn = Snake_new start 4 right in
           case createCheese f sn r1 r2 h1 of
             None \<Rightarrow> None
           | Some (Inl e) \<Rightarrow> Some (Inl e)
           | Some (Inr (c, h2)) \<Rightarrow>
               Some (Inr \<lparr>cheeseFactory = f, cheese = c, snake = sn, positionContext = ctx, objects = h2\<rparr>)))"

text \<open>\<^verbatim>\<open>_ !== this._snake.head\<close>: the two are different objects.\<close>

fun other_object :: "Position \<Rightarrow> Position option \<Rightarrow> bool" where
  "other_object p None = True"
| "other_object p (Some q) = (oid p \<noteq> oid q)"

fun as_other :: "Position option \<Rightarrow> other" where
  "as_other None = Undefined"
| "as_other (Some p) = APosition p"

definition self_collision :: "Snake \<Rightarrow> bool" where
  "self_collision s =
     list_ex (\<lambda>seg. other_object seg (head s) \<and> equals seg (as_other (head s))) (segments s)"

definition AppComponent_tick :: "AppComponent \<Rightarrow> rat \<Rightarrow> rat \<Rightarrow> AppComponent effect" where
  "AppComponent_tick app r1 r2 =
     (case Snake_tick (snake app) (objects app) of
        None \<Rightarrow> None
      | Some (Some e, s1, h1) \<Rightarrow> Some (Some e, app\<lparr>snake := s1, objects := h1\<rparr>)
      | Some (None, s1, h1) \<Rightarrow>
          (let s2 = (if self_collision s1 then kill s1 else s1) in
           if equals (cheese_position (cheese app)) (as_other (head s2))
           then (let s3 = eat s2 (cheese app) in
                 case createCheese (cheeseFactory app) s3 r1 r2 h1 of
                   None \<Rightarrow> None
                 | Some (Inl e) \<Rightarrow> Some (Some e, app\<lparr>snake := s3, objects := h1\<rparr>)
                 | Some (Inr (c, h2)) \<Rightarrow> Some (None, app\<lparr>snake := s3, cheese := c, objects := h2\<rparr>))
           else Some (None, app\<lparr>snake := s2, objects := h1\<rparr>)))"

definition getNewDirection :: "string \<Rightarrow> Direction option" where
  "getNewDirection key =
     (if key = ''ArrowLeft'' then Some left
      else if key = ''ArrowRight'' then Some right
      else if key = ''ArrowUp'' then Some up
      else if key = ''ArrowDown'' then Some down
      else None)"

definition handleUserInput :: "AppComponent \<Rightarrow> string \<Rightarrow> AppComponent" where
  "handleUserInput app key =
     (case getNewDirection key of
        None \<Rightarrow> app
      | Some newDirection \<Rightarrow>
          if isTurn newDirection (direction (snake app))
          then app\<lparr>snake := set_direction (snake app) newDirection\<rparr>
          else app)"

text \<open>
  What reaches the game: a firing of the tick timer, with the two draws its call of
  \<^verbatim>\<open>AppComponent.tick\<close> may use, or a key press. \<open>trace\<close> lists the states left
  by the successive calls of \<^verbatim>\<open>AppComponent.tick\<close>; the list ends with the state of
  a call that throws, and before a call that never returns. The component stops its
  timer at the first notification on \<^verbatim>\<open>died$\<close>; a trace may go on past it.
\<close>

datatype event = TimerTick rat rat | KeyDown string

fun trace :: "event list \<Rightarrow> AppComponent \<Rightarrow> AppComponent list" where
  "trace [] app = []"
| "trace (KeyDown key # es) app = trace es (handleUserInput app key)"
| "trace (TimerTick r1 r2 # es) app =
     (case AppComponent_tick app r1 r2 of
        None \<Rightarrow> []
      | Some (Some e, app') \<Rightarrow> [app']
      | Some (None, app') \<Rightarrow> app' # trace es app')"

text \<open>The cell count of the factory's grid, and the cells a snake lies on.\<close>

definition cells :: "CheeseFactory \<Rightarrow> nat" where
  "cells f =
     nat (snd (domain (ctx_x (f_positionContext f))) - fst (domain (ctx_x (f_positionContext f)))) *
     nat (snd (domain (ctx_y (f_positionContext f))) - fst (domain (ctx_y (f_positionContext f))))"

definition occupied :: "Snake \<Rightarrow> (int \<times> int) set" where
  "occupied s = set (map (\<lambda>p. (pos_x p, pos_y p)) (segments s))"

text \<open>The Position object number \<open>i\<close> on cell \<open>(x, y)\<close> of the 20 by 20 game grid.\<close>

definition cell :: "nat \<Rightarrow> int \<Rightarrow> int \<Rightarrow> Position" where
  "cell i x y = \<lparr>oid = i, pos_x = x, pos_y = y, pos_context = game_context\<rparr>"

text \<open>A snake heading right, alive, with no turn queued.\<close>

definition snake_at :: "Position list \<Rightarrow> int \<Rightarrow> Snake" where
  "snake_at segs f =
     \<lparr>nextDirection = None, direction = right, segments = segs, food = f, dead = False, died = 0\<rparr>"

text \<open>
  A snake that fills the 20 by 20 grid: it went down column 0, up column 1, down
  column 2 and so on; the head is the cell visited last.
\<close>

definition full_board :: "Position list" where
  "full_board =
     rev [cell (nat (20 * x + y)) x (if even x then y else 19 - y). x \<leftarrow> [0..19], y \<leftarrow> [0..19]]"

text \<open>
  Two snakes about to turn up into the cell \<open>(5, 5)\<close> after going right, right, down
  and left: the one of five segments still has a segment there after the move, the
  one of four has just pulled its tail away.
\<close>

definition loop5 :: Snake where
  "loop5 = \<lparr>nextDirection = Some up, direction = left,
            segments = [cell 4 5 6, cell 3 6 6, cell 2 6 5, cell 1 5 5, cell 0 4 5],
            food = 0, dead = False, died = 0\<rparr>"

definition loop4 :: Snake where
  "loop4 = \<lparr>nextDirection = Some up, direction = left,
            segments = [cell 3 5 6, cell 2 6 6, cell 1 6 5, cell 0 5 5],
            food = 0, dead = False, died = 0\<rparr>"

definition loop_app :: "Snake \<Rightarrow> AppComponent" where
  "loop_app s =
     \<lparr>cheeseFactory = game_factory, cheese = \<lparr>cheese_position = cell 5 0 0, cheese_food = 1\<rparr>,
      snake = s, positionContext = game_context, objects = 6\<rparr>"

section \<open>The wrap-around of applyDomainVector\<close>

text \<open>Below \<open>2 ^ 53\<close> in magnitude every integer is a double, and sums are exact.\<close>

lemma bitlen_small:
  assumes "\<bar>n\<bar> < 2 ^ 53"
  shows "bitlen \<bar>n\<bar> \<le> 1024"
proof (cases "n = 0")
  case True
  then show ?thesis by simp
next
  case False
  then have pos: "0 < \<bar>n\<bar>" by simp
  show ?thesis
  proof (rule ccontr)
    assume "\<not> bitlen \<bar>n\<bar> \<le> 1024"
    then have "53 \<le> nat (bitlen \<bar>n\<bar> - 1)" by simp
    then have "(2::int) ^ 53 \<le> 2 ^ nat (bitlen \<bar>n\<bar> - 1)"
      by (rule power_increasing) simp
    also from bitlen_bounds [OF pos] have "\<dots> \<le> \<bar>n\<bar>" by simp
    finally show False using assms by simp
  qed
qed

lemma fl_exact: "\<bar>n\<bar> < 2 ^ 53 \<Longrightarrow> fl n = Num n"
  using bitlen_small [of n] by (simp add: fl_def round53_def)

lemma num_add_exact: "\<bar>a + b\<bar> < 2 ^ 53 \<Longrightarrow> num_add (Num a) (Num b) = Num (a + b)"
  by (simp add: fl_exact)

lemma num_sub_exact: "\<bar>a - b\<bar> < 2 ^ 53 \<Longrightarrow> num_sub (Num a) (Num b) = Num (a - b)"
  by (simp add: num_sub_def fl_exact)

text \<open>With \<open>safe\<close> bounds and a value within \<open>2 ^ 52\<close>, both loops end.\<close>

lemma below_returns:
  assumes "axis_ok c"
  shows "- (2 ^ 52) \<le> v \<Longrightarrow>
         \<exists>r. applyDomainVector_below (Num v) c = Some (Num r) \<and> fst (domain c) \<le> r \<and>
             (r = v \<or> r < snd (domain c))"
proof (induction "nat (fst (domain c) - v)" arbitrary: v rule: less_induct)
  case less
  from assms have w: "w_domain (widths c) = Num (snd (domain c) - fst (domain c))"
    and d: "fst (domain c) < snd (domain c)" and b: "\<bar>snd (domain c)\<bar> \<le> 2 ^ 51"
    by (simp_all add: axis_ok_def safe_def)
  show ?case
  proof (cases "v < fst (domain c)")
    case False
    then show ?thesis by (subst applyDomainVector_below.simps) simp
  next
    case True
    define v' where "v' = v + (snd (domain c) - fst (domain c))"
    from True d less.prems b have "\<bar>v'\<bar> < 2 ^ 53" by (simp add: v'_def)
    then have step: "num_add (Num v) (w_domain (widths c)) = Num v'"
      unfolding w v'_def by (rule num_add_exact)
    from True d have "nat (fst (domain c) - v') < nat (fst (domain c) - v)"
      by (simp add: v'_def)
    moreover from d less.prems have "- (2 ^ 52) \<le> v'" by (simp add: v'_def)
    ultimately obtain r where
      r: "applyDomainVector_below (Num v') c = Some (Num r)" "fst (domain c) \<le> r"
         "r = v' \<or> r < snd (domain c)"
      using less.hyps by blast
    from True have "v' < snd (domain c)" by (simp add: v'_def)
    with r have "r < snd (domain c)" by auto
    with True r(1,2) step show ?thesis
      by (subst applyDomainVector_below.simps) simp
  qed
qed

lemma above_returns:
  assumes "axis_ok c"
  shows "v \<le> 2 ^ 52 \<Longrightarrow>
         \<exists>r. applyDomainVector_above (Num v) c = Some (Num r) \<and> r < snd (domain c) \<and>
             (r = v \<or> fst (domain c) \<le> r)"
proof (induction "nat (v - fst (domain c))" arbitrary: v rule: less_induct)
  case less
  from assms have d: "fst (domain c) < snd (domain c)"
    and b: "\<bar>fst (domain c)\<bar> \<le> 2 ^ 51" "\<bar>snd (domain c)\<bar> \<le> 2 ^ 51"
    by (simp_all add: axis_ok_def safe_def)
  show ?case
  proof (cases "v \<ge> snd (domain c)")
    case False
    then show ?thesis by (subst applyDomainVector_above.simps) simp
  next
    case True
    define v' where "v' = fst (domain c) + (v - snd (domain c))"
    from True b less.prems have "\<bar>v - snd (domain c)\<bar> < 2 ^ 53" by simp
    then have t: "num_sub (Num v) (Num (snd (domain c))) = Num (v - snd (domain c))"
      by (rule num_sub_exact)
    from True b d less.prems have "\<bar>fst (domain c) + (v - snd (domain c))\<bar> < 2 ^ 53" by simp
    then have step: "num_add (Num (fst (domain c))) (num_sub (Num v) (Num (snd (domain c)))) = Num v'"
      unfolding t v'_def by (rule num_add_exact)
    from True d have "nat (v' - fst (domain c)) < nat (v - fst (domain c))"
      by (simp add: v'_def)
    moreover from d less.prems have "v' \<le> 2 ^ 52" by (simp add: v'_def)
    ultimately obtain r where
      r: "applyDomainVector_above (Num v') c = Some (Num r)" "r < snd (domain c)"
         "r = v' \<or> fst (domain c) \<le> r"
      using less.hyps by blast
    from True have "fst (domain c) \<le> v'" by (simp add: v'_def)
    with r have "fst (domain c) \<le> r" by auto
    with True r(1,2) step show ?thesis
      by (subst applyDomainVector_above.simps) simp
  qed
qed

lemma applyDomainVector_inside:
  "fst (domain c) \<le> v \<Longrightarrow> v < snd (domain c) \<Longrightarrow> applyDomainVector (Num v) c = Some (Num v)"
  unfolding applyDomainVector_def
  by (subst applyDomainVector_below.simps, simp, subst applyDomainVector_above.simps, simp)

lemma applyDomainVector_returns:
  assumes "axis_ok c" and "\<bar>v\<bar> \<le> 2 ^ 52"
  shows "\<exists>r. applyDomainVector (Num v) c = Some (Num r) \<and> fst (domain c) \<le> r \<and> r < snd (domain c)"
proof -
  from assms(1) have b: "\<bar>snd (domain c)\<bar> \<le> 2 ^ 51" by (simp add: axis_ok_def safe_def)
  from assms(2) have "- (2 ^ 52) \<le> v" by simp
  from below_returns [OF assms(1) this] obtain r1 where
    r1: "applyDomainVector_below (Num v) c = Some (Num r1)" "fst (domain c) \<le> r1"
        "r1 = v \<or> r1 < snd (domain c)" by blast
  from r1(3) assms(2) b have "r1 \<le> 2 ^ 52" by auto
  from above_returns [OF assms(1) this] obtain r where
    r: "applyDomainVector_above (Num r1) c = Some (Num r)" "r < snd (domain c)"
       "r = r1 \<or> fst (domain c) \<le> r" by blast
  from r1 r show ?thesis by (auto simp: applyDomainVector_def)
qed

lemma safe_constants: "safe 0" "safe 1" "safe (- 1)" "safe 20" "safe 5"
  by (simp_all add: safe_def)

lemma axis_ok_new:
  "fst (ix dm) < snd (ix dm) \<Longrightarrow> safe (fst (ix dm)) \<Longrightarrow> safe (snd (ix dm)) \<Longrightarrow>
     axis_ok (ctx_x (PositionContext_new dm rg))"
  "fst (iy dm) < snd (iy dm) \<Longrightarrow> safe (fst (iy dm)) \<Longrightarrow> safe (snd (iy dm)) \<Longrightarrow>
     axis_ok (ctx_y (PositionContext_new dm rg))"
  by (simp_all add: axis_ok_def PositionContext_new_def getWidths_def safe_def num_sub_exact)

lemma context_ok_game: "context_ok game_context"
  by (simp add: context_ok_def game_context_def axis_ok_new safe_constants)

lemma game_domain:
  "domain (ctx_x game_context) = (0, 20)" "domain (ctx_y game_context) = (0, 20)"
  by (simp_all add: game_context_def PositionContext_new_def)




text \<open>Rounding at work: ties go to the even neighbour.\<close>

lemma fl_examples:
  "fl (2 ^ 53 + 1) = Num (2 ^ 53)" "fl (2 ^ 53 + 2) = Num (2 ^ 53 + 2)"
  "fl (2 ^ 53 + 3) = Num (2 ^ 53 + 4)" "num_add (Num (2 ^ 53 - 1)) (Num 2) = Num (2 ^ 53)"
  by code_simp+

text \<open>A width of zero never leaves the first loop.\<close>

lemma below_zero_width:
  assumes "w_domain (widths c) = Num 0" and "\<bar>v\<bar> < 2 ^ 53" and "v < fst (domain c)"
  shows "applyDomainVector (Num v) c = None"
proof -
  have stuck: "num_add (Num v) (w_domain (widths c)) = Num v"
    using assms(1,2) by (simp add: fl_exact)
  have "\<not> (v' = Num v \<and> c' = c)" if "applyDomainVector_below v' c' = Some r" for v' c' r
    using that
  proof (rule applyDomainVector_below.raw_induct
          [where P = "\<lambda>v' c' r. \<not> (v' = Num v \<and> c' = c)", rotated])
    fix f v' c' r
    assume IH: "\<And>v' c' r. f v' c' = Some r \<Longrightarrow> \<not> (v' = Num v \<and> c' = c)"
      and step: "(if num_lt v' (Num (fst (domain c')))
                  then f (num_add v' (w_domain (widths c'))) c' else Some v') = Some r"
    show "\<not> (v' = Num v \<and> c' = c)"
    proof
      assume "v' = Num v \<and> c' = c"
      with step assms(3) stuck have "f (Num v) c = Some r" by simp
      from IH [OF this] show False by simp
    qed
  qed
  then have "applyDomainVector_below (Num v) c = None"
    by (cases "applyDomainVector_below (Num v) c") auto
  then show ?thesis by (simp add: applyDomainVector_def)
qed






lemma applyDomain_returns:
  assumes "context_ok ctx" and "\<bar>x\<bar> \<le> 2 ^ 52" and "\<bar>y\<bar> \<le> 2 ^ 52"
  shows "\<exists>x' y'. applyDomain (Num x) (Num y) ctx = Some (Num x', Num y') \<and>
           fst (domain (ctx_x ctx)) \<le> x' \<and> x' < snd (domain (ctx_x ctx)) \<and>
           fst (domain (ctx_y ctx)) \<le> y' \<and> y' < snd (domain (ctx_y ctx))"
proof -
  from assms(1) have "axis_ok (ctx_x ctx)" "axis_ok (ctx_y ctx)" by (simp_all add: context_ok_def)
  from applyDomainVector_returns [OF this(1) assms(2)] applyDomainVector_returns [OF this(2) assms(3)]
  show ?thesis by (auto simp: applyDomain_def)
qed

lemma applyDomain_inside:
  "fst (domain (ctx_x ctx)) \<le> x \<Longrightarrow> x < snd (domain (ctx_x ctx)) \<Longrightarrow>
   fst (domain (ctx_y ctx)) \<le> y \<Longrightarrow> y < snd (domain (ctx_y ctx)) \<Longrightarrow>
   applyDomain (Num x) (Num y) ctx = Some (Num x, Num y)"
  by (simp add: applyDomain_def applyDomainVector_inside)

section \<open>The normalisation returns integers\<close>

text \<open>Rounding keeps the sign and does not leave the next power of two.\<close>

lemma bitlen_le_iff: "0 < x \<Longrightarrow> (bitlen x \<le> int k) = (x < 2 ^ k)"
  using floorlog_le_iff [of 2 "nat x" k] by (simp add: bitlen_def nat_less_iff)

lemma round53_nonneg:
  assumes "0 \<le> n"
  shows "0 \<le> round53 n"
proof -
  have "0 \<le> n div 2 ^ k" for k
    using assms by (simp add: pos_imp_zdiv_nonneg_iff)
  from this [of "nat (bitlen n - 53)"] assms show ?thesis
    by (auto simp: round53_def Let_def sgn_if)
qed

lemma fl_nonneg:
  assumes "0 \<le> n"
  shows "fl n = PosInf \<or> (\<exists>m\<ge>0. fl n = Num m)"
proof (cases "n = 0")
  case True
  then show ?thesis by (simp add: fl_def round53_def)
next
  case False
  with assms have "0 < n" by simp
  with round53_nonneg [OF assms] show ?thesis by (auto simp: fl_def)
qed

lemma power_split: "p \<le> L \<Longrightarrow> (2::int) ^ L = 2 ^ p * 2 ^ (L - p)"
  by (simp add: power_add [symmetric])

lemma round53_bound:
  assumes "\<bar>n\<bar> < 2 ^ k" and "53 \<le> k"
  shows "\<bar>round53 n\<bar> \<le> 2 ^ k"
proof (cases "\<bar>n\<bar> < 2 ^ 53")
  case True
  with assms(1) show ?thesis by (simp add: round53_def)
next
  case False
  then have pos: "0 < \<bar>n\<bar>" by simp
  define L where "L = nat (bitlen \<bar>n\<bar>)"
  have e: "nat (bitlen \<bar>n\<bar> - 1) = L - 1"
    unfolding L_def by arith
  from bitlen_bounds [OF pos] have b: "2 ^ (L - 1) \<le> \<bar>n\<bar>" "\<bar>n\<bar> < 2 ^ L"
    unfolding e by (simp_all add: L_def)
  from False b(2) have "(2::int) ^ 53 < 2 ^ L" by simp
  then have L53: "53 < L" by (rule power_less_imp_less_exp [rotated]) simp
  from b(1) assms(1) have "(2::int) ^ (L - 1) < 2 ^ k" by (rule le_less_trans)
  then have "L - 1 < k" by (rule power_less_imp_less_exp [rotated]) simp
  then have Lk: "L \<le> k" by simp
  define u :: int where "u = 2 ^ (L - 53)"
  have u: "0 < u" by (simp add: u_def)
  have Lu: "(2::int) ^ L = 2 ^ 53 * u"
    using power_split [of 53 L] L53 by (simp add: u_def)
  have "\<bar>n\<bar> = \<bar>n\<bar> div u * u + \<bar>n\<bar> mod u" by simp
  moreover have "0 \<le> \<bar>n\<bar> mod u" using u by simp
  ultimately have "\<bar>n\<bar> div u * u \<le> \<bar>n\<bar>" by linarith
  with b(2) have "\<bar>n\<bar> div u * u < 2 ^ 53 * u" unfolding Lu by linarith
  with u have "\<bar>n\<bar> div u < 2 ^ 53" by (simp only: mult_less_cancel_right_pos)
  then have q: "\<bar>n\<bar> div u + 1 \<le> 2 ^ 53" "\<bar>n\<bar> div u \<le> 2 ^ 53" by simp_all
  have q0: "0 \<le> \<bar>n\<bar> div u" using u by (simp add: pos_imp_zdiv_nonneg_iff)
  have ex: "nat (bitlen \<bar>n\<bar> - 53) = L - 53"
    unfolding L_def by arith
  have "\<bar>round53 n\<bar> \<le> 2 ^ 53 * u"
    using False q q0 u
    by (auto simp: round53_def Let_def ex u_def [symmetric] abs_mult abs_sgn_eq
        intro!: mult_right_mono)
  also have "\<dots> = 2 ^ L" by (simp add: Lu)
  also from Lk have "\<dots> \<le> 2 ^ k" by (simp add: power_increasing)
  finally show ?thesis .
qed


lemma fl_finite:
  assumes "\<bar>n\<bar> < 2 ^ 1023"
  shows "\<exists>m. fl n = Num m"
proof (cases "round53 n = 0")
  case True
  then show ?thesis by (simp add: fl_def)
next
  case False
  then have pos: "0 < \<bar>round53 n\<bar>" by simp
  from round53_bound [OF assms] have "\<bar>round53 n\<bar> \<le> 2 ^ 1023" by simp
  also have "\<dots> < (2::int) ^ 1024" by simp
  finally have "bitlen \<bar>round53 n\<bar> \<le> int 1024"
    by (simp only: bitlen_le_iff [OF pos])
  then show ?thesis by (simp add: fl_def)
qed

lemma fl_cases: "(\<exists>m. fl n = Num m) \<or> fl n = PosInf \<or> fl n = NegInf"
  by (simp add: fl_def)

lemma num_add_width:
  "val \<noteq> NaN \<Longrightarrow> num_add val (Num w) \<noteq> NaN"
  using fl_cases [of "a + w" for a] by (cases val) (auto simp: fl_def)

lemma below_number:
  assumes "applyDomainVector_below val c = Some r"
  shows "(\<exists>w. w_domain (widths c) = Num w) \<longrightarrow> val \<noteq> NaN \<longrightarrow> (\<exists>a. r = Num a) \<or> r = PosInf"
  using assms
proof (rule applyDomainVector_below.raw_induct
        [where P = "\<lambda>val c r. (\<exists>w. w_domain (widths c) = Num w) \<longrightarrow> val \<noteq> NaN \<longrightarrow>
                      (\<exists>a. r = Num a) \<or> r = PosInf", rotated])
  fix f val c r
  assume IH: "\<And>val c r. f val c = Some r \<Longrightarrow>
                (\<exists>w. w_domain (widths c) = Num w) \<longrightarrow> val \<noteq> NaN \<longrightarrow> (\<exists>a. r = Num a) \<or> r = PosInf"
    and step: "(if num_lt val (Num (fst (domain c)))
                then f (num_add val (w_domain (widths c))) c else Some val) = Some r"
  show "(\<exists>w. w_domain (widths c) = Num w) \<longrightarrow> val \<noteq> NaN \<longrightarrow> (\<exists>a. r = Num a) \<or> r = PosInf"
  proof (intro impI)
    assume w: "\<exists>w. w_domain (widths c) = Num w" and v: "val \<noteq> NaN"
    then obtain w' where w': "w_domain (widths c) = Num w'" by blast
    show "(\<exists>a. r = Num a) \<or> r = PosInf"
    proof (cases "num_lt val (Num (fst (domain c)))")
      case True
      with step have "f (num_add val (Num w')) c = Some r" by (simp add: w')
      from IH [OF this] w num_add_width [OF v] show ?thesis by blast
    next
      case False
      with step have "r = val" by simp
      with False v show ?thesis by (cases val) simp_all
    qed
  qed
qed

lemma above_step:
  assumes "\<bar>d0\<bar> < 2 ^ 1023" and "val = PosInf \<or> (\<exists>a. val = Num a)" and "num_ge val (Num d1)"
  shows "num_add (Num d0) (num_sub val (Num d1)) = PosInf \<or>
         (\<exists>a. num_add (Num d0) (num_sub val (Num d1)) = Num a)"
proof (cases val)
  case (Num a)
  with assms(3) have "0 \<le> a - d1" by simp
  from fl_nonneg [OF this] have "fl (a - d1) = PosInf \<or> (\<exists>m\<ge>0. fl (a - d1) = Num m)" .
  then show ?thesis
  proof
    assume "fl (a - d1) = PosInf"
    with Num show ?thesis by (simp add: num_sub_def)
  next
    assume "\<exists>m\<ge>0. fl (a - d1) = Num m"
    then obtain m where m: "0 \<le> m" "fl (a - d1) = Num m" by blast
    have "fl (d0 + m) = PosInf \<or> (\<exists>k. fl (d0 + m) = Num k)"
    proof (cases "0 \<le> d0 + m")
      case True
      from fl_nonneg [OF this] show ?thesis by blast
    next
      case False
      with m(1) assms(1) have "\<bar>d0 + m\<bar> < 2 ^ 1023" by simp
      from fl_finite [OF this] show ?thesis by blast
    qed
    with Num m(2) show ?thesis by (simp add: num_sub_def)
  qed
qed (insert assms(2), simp_all add: num_sub_def)

lemma above_number:
  assumes "applyDomainVector_above val c = Some r"
  shows "\<bar>fst (domain c)\<bar> < 2 ^ 1023 \<longrightarrow> val = PosInf \<or> (\<exists>a. val = Num a) \<longrightarrow> (\<exists>a. r = Num a)"
  using assms
proof (rule applyDomainVector_above.raw_induct
        [where P = "\<lambda>val c r. \<bar>fst (domain c)\<bar> < 2 ^ 1023 \<longrightarrow> val = PosInf \<or> (\<exists>a. val = Num a) \<longrightarrow>
                      (\<exists>a. r = Num a)", rotated])
  fix f val c r
  assume IH: "\<And>val c r. f val c = Some r \<Longrightarrow>
                \<bar>fst (domain c)\<bar> < 2 ^ 1023 \<longrightarrow> val = PosInf \<or> (\<exists>a. val = Num a) \<longrightarrow> (\<exists>a. r = Num a)"
    and step: "(if num_ge val (Num (snd (domain c)))
                then f (num_add (Num (fst (domain c))) (num_sub val (Num (snd (domain c))))) c
                else Some val) = Some r"
  show "\<bar>fst (domain c)\<bar> < 2 ^ 1023 \<longrightarrow> val = PosInf \<or> (\<exists>a. val = Num a) \<longrightarrow> (\<exists>a. r = Num a)"
  proof (intro impI)
    assume d: "\<bar>fst (domain c)\<bar> < 2 ^ 1023" and v: "val = PosInf \<or> (\<exists>a. val = Num a)"
    show "\<exists>a. r = Num a"
    proof (cases "num_ge val (Num (snd (domain c)))")
      case True
      with step have
        "f (num_add (Num (fst (domain c))) (num_sub val (Num (snd (domain c))))) c = Some r"
        by simp
      from IH [OF this] d above_step [OF d v True] show ?thesis by blast
    next
      case False
      with step have "r = val" by simp
      with False v show ?thesis by auto
    qed
  qed
qed

text \<open>
  On an axis with a finite stored width and a lower bound that a double holds, a call
  of \<^verbatim>\<open>applyDomainVector\<close> on a number other than NaN that returns, returns an
  integer: an infinity never leaves the loops.
\<close>

lemma applyDomainVector_number:
  assumes "applyDomainVector val c = Some r" and "val \<noteq> NaN"
    and "w_domain (widths c) = Num w" and "\<bar>fst (domain c)\<bar> < 2 ^ 1023"
  shows "\<exists>a. r = Num a"
proof -
  from assms(1) obtain r1 where
    r1: "applyDomainVector_below val c = Some r1" "applyDomainVector_above r1 c = Some r"
    by (auto simp: applyDomainVector_def split: option.splits)
  from below_number [OF r1(1)] assms(2,3) have "r1 = PosInf \<or> (\<exists>a. r1 = Num a)" by blast
  with above_number [OF r1(2)] assms(4) show ?thesis by blast
qed

text \<open>
  So \<open>Position_new\<close> on such arguments is \<open>None\<close> exactly when the
  normalisation does not return.
\<close>

lemma Position_new_None:
  assumes "x \<noteq> NaN" and "y \<noteq> NaN"
    and "\<exists>w. w_domain (widths (ctx_x ctx)) = Num w" and "\<bar>fst (domain (ctx_x ctx))\<bar> < 2 ^ 1023"
    and "\<exists>w. w_domain (widths (ctx_y ctx)) = Num w" and "\<bar>fst (domain (ctx_y ctx))\<bar> < 2 ^ 1023"
  shows "(Position_new x y ctx h = None) = (applyDomain x y ctx = None)"
proof (cases "applyDomain x y ctx")
  case None
  then show ?thesis by (simp add: Position_new_def)
next
  case (Some r)
  obtain x' y' where r: "r = (x', y')" by (cases r)
  from Some r have xy: "applyDomainVector x (ctx_x ctx) = Some x'"
    "applyDomainVector y (ctx_y ctx) = Some y'"
    by (auto simp: applyDomain_def split: option.splits)
  from assms(3) obtain wx where wx: "w_domain (widths (ctx_x ctx)) = Num wx" by blast
  from assms(5) obtain wy where wy: "w_domain (widths (ctx_y ctx)) = Num wy" by blast
  from applyDomainVector_number [OF xy(1) assms(1) wx assms(4)]
    applyDomainVector_number [OF xy(2) assms(2) wy assms(6)]
  obtain a b where "x' = Num a" "y' = Num b" by blast
  with Some r show ?thesis by (simp add: Position_new_def)
qed

section \<open>Positions and directions\<close>

lemma in_domain_safe:
  "axis_ok c \<Longrightarrow> fst (domain c) \<le> r \<Longrightarrow> r < snd (domain c) \<Longrightarrow> safe r"
  by (auto simp: axis_ok_def safe_def)

lemma Position_new_returns:
  assumes "context_ok ctx" and "\<bar>x\<bar> \<le> 2 ^ 52" and "\<bar>y\<bar> \<le> 2 ^ 52"
  shows "\<exists>p. Position_new (Num x) (Num y) ctx h = Some (p, Suc h) \<and> oid p = h \<and>
             pos_context p = ctx \<and> safe (pos_x p) \<and> safe (pos_y p)"
proof -
  from applyDomain_returns [OF assms] obtain x' y' where
    r: "applyDomain (Num x) (Num y) ctx = Some (Num x', Num y')"
       "fst (domain (ctx_x ctx)) \<le> x'" "x' < snd (domain (ctx_x ctx))"
       "fst (domain (ctx_y ctx)) \<le> y'" "y' < snd (domain (ctx_y ctx))" by blast
  from assms(1) have "axis_ok (ctx_x ctx)" "axis_ok (ctx_y ctx)" by (simp_all add: context_ok_def)
  with r(2-5) have "safe x'" "safe y'" by (auto intro: in_domain_safe)
  with r(1) show ?thesis by (simp add: Position_new_def)
qed

lemma Position_new_inside:
  "fst (domain (ctx_x ctx)) \<le> x \<Longrightarrow> x < snd (domain (ctx_x ctx)) \<Longrightarrow>
   fst (domain (ctx_y ctx)) \<le> y \<Longrightarrow> y < snd (domain (ctx_y ctx)) \<Longrightarrow>
   Position_new (Num x) (Num y) ctx h =
     Some (\<lparr>oid = h, pos_x = x, pos_y = y, pos_context = ctx\<rparr>, Suc h)"
  by (simp add: Position_new_def applyDomain_inside)

lemma safe_sum:
  assumes "safe a" and "safe b"
  shows "num_add (Num a) (Num b) = Num (a + b)" and "\<bar>a + b\<bar> \<le> 2 ^ 52"
proof -
  from assms show "\<bar>a + b\<bar> \<le> 2 ^ 52" by (simp add: safe_def)
  then have "\<bar>a + b\<bar> < 2 ^ 53" by simp
  then show "num_add (Num a) (Num b) = Num (a + b)" by (rule num_add_exact)
qed

lemma applyTo_returns:
  assumes "context_ok (pos_context p)" and "safe (pos_x p)" and "safe (pos_y p)"
    and "direction_ok d"
  shows "\<exists>q. applyTo d (Some p) h = Some (Inr (q, Suc h)) \<and> oid q = h \<and>
             pos_context q = pos_context p \<and> safe (pos_x q) \<and> safe (pos_y q)"
proof -
  from assms(4) have d: "safe (d_dx d)" "safe (d_dy d)" by (simp_all add: direction_ok_def)
  from Position_new_returns [OF assms(1) safe_sum(2) [OF assms(2) d(1)] safe_sum(2) [OF assms(3) d(2)], of h]
  show ?thesis
    by (auto simp: createModified_def safe_sum(1) [OF assms(2) d(1)] safe_sum(1) [OF assms(3) d(2)]
        simp del: num_add.simps)
qed

lemma direction_ok_units:
  "direction_ok up" "direction_ok down" "direction_ok left" "direction_ok right"
  by (simp_all add: direction_ok_def up_def down_def left_def right_def Direction_new_def safe_def)

lemma cell_fields:
  "oid (cell i x y) = i" "pos_x (cell i x y) = x" "pos_y (cell i x y) = y"
  "pos_context (cell i x y) = game_context"
  by (simp_all add: cell_def)

lemma applyTo_cell:
  assumes "0 \<le> x + d_dx d" "x + d_dx d < 20" "0 \<le> y + d_dy d" "y + d_dy d < 20"
  shows "applyTo d (Some (cell i x y)) h = Some (Inr (cell h (x + d_dx d) (y + d_dy d), Suc h))"
proof -
  from assms have "\<bar>x + d_dx d\<bar> < 2 ^ 53" "\<bar>y + d_dy d\<bar> < 2 ^ 53" by simp_all
  then have "num_add (Num x) (Num (d_dx d)) = Num (x + d_dx d)"
    "num_add (Num y) (Num (d_dy d)) = Num (y + d_dy d)"
    by (simp_all only: num_add_exact)
  with assms show ?thesis
    by (simp add: createModified_def cell_fields Position_new_inside game_domain cell_def
        del: num_add.simps)
qed

lemma session_start: "Position_new (Num 5) (Num 5) game_context 0 = Some (cell 0 5 5, 1)"
  by (simp add: Position_new_inside game_domain cell_def)

text \<open>
  C6. Among the four directions of the game, \<^verbatim>\<open>d.isTurn(previous)\<close> is false when
  \<open>d\<close> is \<open>previous\<close>, false when \<open>d\<close> is its opposite, and true for the two
  directions that remain, the perpendicular ones. With \<open>previous = right\<close>: false for
  left and right, true for up and down.
\<close>

theorem isTurn_table:
  "(\<forall>previous \<in> {up, down, left, right}.
      \<not> isTurn previous previous \<and> \<not> isTurn (opposite previous) previous \<and>
      (\<forall>d \<in> {up, down, left, right}. d \<noteq> previous \<and> d \<noteq> opposite previous \<longrightarrow> isTurn d previous)) \<and>
   \<not> isTurn left right \<and> \<not> isTurn right right \<and> isTurn up right \<and> isTurn down right \<and>
   opposite up = down \<and> opposite down = up \<and> opposite left = right \<and> opposite right = left"
  by (simp add: isTurn_def up_def down_def left_def right_def opposite_def Direction_new_def)

theorem isTurn_table_witness:
  "left \<in> {up, down, left, right} \<and> down \<in> {up, down, left, right} \<and>
   down \<noteq> left \<and> down \<noteq> opposite left \<and> isTurn down left \<and> \<not> isTurn left left \<and>
   \<not> isTurn (opposite left) left"
proof -
  have "down \<noteq> left \<and> down \<noteq> opposite left"
    by (simp add: down_def left_def opposite_def Direction_new_def)
  with isTurn_table show ?thesis by blast
qed

section \<open>One tick of the snake\<close>

lemma head_Cons: "segments s = p # ps \<Longrightarrow> head s = Some p"
  by (simp add: head_def)

lemma commit_direction_fields:
  "segments (commit_direction s) = segments s"
  "food (commit_direction s) = food s"
  "dead (commit_direction s) = dead s"
  "died (commit_direction s) = died s"
  "nextDirection (commit_direction s) = None"
  "direction (commit_direction s) = (case nextDirection s of Some d \<Rightarrow> d | None \<Rightarrow> direction s)"
  "head (commit_direction s) = head s"
  by (simp_all add: commit_direction_def head_def split: option.splits)

lemma commit_direction_dead:
  "commit_direction (s\<lparr>dead := b\<rparr>) = (commit_direction s)\<lparr>dead := b\<rparr>"
  by (simp add: commit_direction_def split: option.splits)

lemma snake_okE:
  assumes "snake_ok s"
  obtains p ps where "segments s = p # ps" "context_ok (pos_context p)"
    "safe (pos_x p)" "safe (pos_y p)" "direction_ok (direction (commit_direction s))"
  using assms
  by (auto simp: snake_ok_def commit_direction_fields split: list.splits option.splits)

lemma snake_ok_start:
  "safe x \<Longrightarrow> safe y \<Longrightarrow> direction_ok d \<Longrightarrow> snake_ok (Snake_new (cell i x y) f d)"
  by (simp add: snake_ok_def Snake_new_def cell_def context_ok_game)

lemma snake_ok_game: "snake_ok (Snake_new (cell 0 5 5) f right)"
  by (simp add: snake_ok_start safe_constants direction_ok_units)

lemma snake_ok_updates:
  "snake_ok (eat s c) = snake_ok s"
  "snake_ok (kill s) = snake_ok s"
  "snake_ok (s\<lparr>dead := b\<rparr>) = snake_ok s"
  "direction_ok d \<Longrightarrow> snake_ok s \<Longrightarrow> snake_ok (set_direction s d)"
  by (simp_all add: snake_ok_def eat_def kill_def set_direction_def)

lemma Snake_tick_returns:
  assumes "snake_ok s" and "segments s = p # ps"
  shows "\<exists>q. applyTo (direction (commit_direction s)) (Some p) h = Some (Inr (q, Suc h)) \<and>
             oid q = h \<and> pos_context q = pos_context p \<and> safe (pos_x q) \<and> safe (pos_y q) \<and>
             Snake_tick s h =
               Some (None,
                     (if 0 < food s
                      then (commit_direction s)\<lparr>segments := q # p # ps, food := food s - 1\<rparr>
                      else (commit_direction s)\<lparr>segments := q # butlast (p # ps)\<rparr>),
                     Suc h)"
proof -
  from assms have p: "context_ok (pos_context p)" "safe (pos_x p)" "safe (pos_y p)"
    "direction_ok (direction (commit_direction s))"
    by (auto elim!: snake_okE)
  from applyTo_returns [OF p, of h] obtain q where
    q: "applyTo (direction (commit_direction s)) (Some p) h = Some (Inr (q, Suc h))"
       "oid q = h" "pos_context q = pos_context p" "safe (pos_x q)" "safe (pos_y q)" by blast
  have hd: "head (commit_direction s) = Some p"
    using assms(2) by (simp add: commit_direction_fields head_Cons)
  have "Snake_tick s h =
          Some (None,
                (if 0 < food s
                 then (commit_direction s)\<lparr>segments := q # p # ps, food := food s - 1\<rparr>
                 else (commit_direction s)\<lparr>segments := q # butlast (p # ps)\<rparr>),
                Suc h)"
    unfolding Snake_tick_def Let_def hd q(1)
    using assms(2) by (simp add: commit_direction_fields)
  with q show ?thesis by blast
qed

lemma snake_ok_moved:
  assumes "snake_ok s" and "segments s = p # ps"
    and "pos_context q = pos_context p" and "safe (pos_x q)" and "safe (pos_y q)"
  shows "snake_ok ((commit_direction s)\<lparr>segments := q # qs, food := f\<rparr>)"
    and "snake_ok ((commit_direction s)\<lparr>segments := q # qs\<rparr>)"
  using assms
  by (auto simp: snake_ok_def commit_direction_fields split: option.splits)

lemma Snake_tick_ok:
  assumes "snake_ok s"
  shows "\<exists>s'. Snake_tick s h = Some (None, s', Suc h) \<and> snake_ok s' \<and>
              food s' = (if 0 < food s then food s - 1 else food s) \<and>
              length (segments s') = (if 0 < food s then Suc (length (segments s)) else length (segments s)) \<and>
              dead s' = dead s \<and> died s' = died s"
proof -
  from assms obtain p ps where s: "segments s = p # ps" by (rule snake_okE)
  from Snake_tick_returns [OF assms s, of h] obtain q where
    q: "pos_context q = pos_context p" "safe (pos_x q)" "safe (pos_y q)"
       "Snake_tick s h =
               Some (None,
                     (if 0 < food s
                      then (commit_direction s)\<lparr>segments := q # p # ps, food := food s - 1\<rparr>
                      else (commit_direction s)\<lparr>segments := q # butlast (p # ps)\<rparr>),
                     Suc h)" by blast
  show ?thesis
    unfolding q(4) using s snake_ok_moved [OF assms s q(1-3)]
    by (simp add: commit_direction_fields)
qed

lemma Snake_tick_cell:
  assumes "segments s = cell i x y # ps" "nextDirection s = None"
    "0 \<le> x + d_dx (direction s)" "x + d_dx (direction s) < 20"
    "0 \<le> y + d_dy (direction s)" "y + d_dy (direction s) < 20"
  shows "Snake_tick s h =
     Some (None,
       (if 0 < food s
        then s\<lparr>segments := cell h (x + d_dx (direction s)) (y + d_dy (direction s)) # segments s,
               food := food s - 1\<rparr>
        else s\<lparr>segments := cell h (x + d_dx (direction s)) (y + d_dy (direction s)) # butlast (segments s)\<rparr>),
       Suc h)"
  using assms
  by (simp add: Snake_tick_def commit_direction_def head_def applyTo_cell del: applyTo.simps)

lemma tick_right:
  "x + 1 < 20 \<Longrightarrow> 0 \<le> x \<Longrightarrow> 0 \<le> y \<Longrightarrow> y < 20 \<Longrightarrow>
   Snake_tick (snake_at (cell i x y # ps) f) h =
     Some (None, (if 0 < f then snake_at (cell h (x + 1) y # cell i x y # ps) (f - 1)
                  else snake_at (cell h (x + 1) y # butlast (cell i x y # ps)) f), Suc h)"
  by (simp add: Snake_tick_cell snake_at_def right_def Direction_new_def)

text \<open>
  C1. One call of \<^verbatim>\<open>tick()\<close> on a snake whose head exists in a context with
  non-empty domains, all numbers \<open>safe\<close> (alive or not), returns, and does this in
  order: a queued \<open>nextDirection\<close> becomes the direction and the queue is cleared;
  the new head, the direction applied to the old head, is put in front of the
  segments; then, when \<open>food > 0\<close>, food goes down by one and no segment is removed,
  so the count goes up by one, and otherwise the last segment is removed and the count
  stays. Nothing else changes.
\<close>

theorem Snake_tick_steps:
  assumes "snake_ok s"
  shows "\<exists>newhead s'.
           applyTo (case nextDirection s of Some d \<Rightarrow> d | None \<Rightarrow> direction s) (head s) h
             = Some (Inr (newhead, Suc h)) \<and>
           Snake_tick s h = Some (None, s', Suc h) \<and>
           direction s' = (case nextDirection s of Some d \<Rightarrow> d | None \<Rightarrow> direction s) \<and>
           nextDirection s' = None \<and>
           (if 0 < food s
            then food s' = food s - 1 \<and> segments s' = newhead # segments s \<and>
                 length (segments s') = length (segments s) + 1
            else food s' = food s \<and> segments s' = newhead # butlast (segments s) \<and>
                 length (segments s') = length (segments s)) \<and>
           dead s' = dead s \<and> died s' = died s"
proof -
  from assms obtain p ps where s: "segments s = p # ps" by (rule snake_okE)
  from Snake_tick_returns [OF assms s, of h] obtain q where
    q: "applyTo (direction (commit_direction s)) (Some p) h = Some (Inr (q, Suc h))"
       "Snake_tick s h =
               Some (None,
                     (if 0 < food s
                      then (commit_direction s)\<lparr>segments := q # p # ps, food := food s - 1\<rparr>
                      else (commit_direction s)\<lparr>segments := q # butlast (p # ps)\<rparr>),
                     Suc h)" by blast
  show ?thesis
    unfolding q(2) using s q(1)
    by (simp add: commit_direction_fields head_Cons)
qed

theorem Snake_tick_steps_witness:
  "snake_ok (Snake_new (cell 0 5 5) 4 right) \<and>
   (\<exists>s'. Snake_tick (Snake_new (cell 0 5 5) 4 right) 1 = Some (None, s', 2) \<and>
      food s' = 3 \<and> length (segments s') = 2)"
proof -
  have ok: "snake_ok (Snake_new (cell 0 5 5) 4 right)" by (rule snake_ok_game)
  from Snake_tick_steps [OF ok, of 1] show ?thesis using ok
    by (auto simp: Snake_new_def)
qed

text \<open>
  C7, as the code has it. \<^verbatim>\<open>tick()\<close> never reads the dead flag: called on a dead
  snake (head present, non-empty domains, \<open>safe\<close> numbers) it returns without
  throwing and the flag stays set, but it is not a no-op. It puts the new head in
  front of the segments and uses up food or drops the tail exactly as it does for the
  same snake alive.
\<close>

theorem tick_ignores_dead:
  assumes "snake_ok s" and "dead s"
  shows "\<exists>newhead s'.
           applyTo (direction (commit_direction s)) (head s) h = Some (Inr (newhead, Suc h)) \<and>
           Snake_tick s h = Some (None, s', Suc h) \<and> dead s' \<and> died s' = died s \<and>
           segments s' = newhead # (if 0 < food s then segments s else butlast (segments s)) \<and>
           Snake_tick (s\<lparr>dead := False\<rparr>) h = Some (None, s'\<lparr>dead := False\<rparr>, Suc h)"
proof -
  from assms(1) obtain p ps where s: "segments s = p # ps" by (rule snake_okE)
  from Snake_tick_returns [OF assms(1) s, of h] obtain q where
    q: "applyTo (direction (commit_direction s)) (Some p) h = Some (Inr (q, Suc h))"
       "Snake_tick s h =
               Some (None,
                     (if 0 < food s
                      then (commit_direction s)\<lparr>segments := q # p # ps, food := food s - 1\<rparr>
                      else (commit_direction s)\<lparr>segments := q # butlast (p # ps)\<rparr>),
                     Suc h)" by blast
  have ok2: "snake_ok (s\<lparr>dead := False\<rparr>)" using assms(1) by (simp add: snake_ok_updates)
  have s2: "segments (s\<lparr>dead := False\<rparr>) = p # ps" using s by simp
  from Snake_tick_returns [OF ok2 s2, of h] q(1) have
    a: "Snake_tick (s\<lparr>dead := False\<rparr>) h =
               Some (None,
                     (if 0 < food s
                      then (commit_direction s)\<lparr>dead := False, segments := q # p # ps, food := food s - 1\<rparr>
                      else (commit_direction s)\<lparr>dead := False, segments := q # butlast (p # ps)\<rparr>),
                     Suc h)"
    by (simp add: commit_direction_dead commit_direction_fields)
  show ?thesis
    unfolding q(2) a using s q(1) assms(2)
    by (simp add: commit_direction_fields head_Cons)
qed

theorem tick_ignores_dead_witness:
  "snake_ok (kill (Snake_new (cell 0 5 5) 4 right)) \<and> dead (kill (Snake_new (cell 0 5 5) 4 right)) \<and>
   (\<exists>s'. Snake_tick (kill (Snake_new (cell 0 5 5) 4 right)) 1 = Some (None, s', 2) \<and> dead s' \<and>
      length (segments s') = 2)"
proof -
  have ok: "snake_ok (kill (Snake_new (cell 0 5 5) 4 right))"
    by (simp add: snake_ok_updates snake_ok_game)
  have d: "dead (kill (Snake_new (cell 0 5 5) 4 right))" by (simp add: kill_def)
  from tick_ignores_dead [OF ok d, of 1] show ?thesis using ok d
    by (auto simp: kill_def Snake_new_def)
qed

text \<open>
  C7 as stated fails: the snake of the game, killed before its first tick, is moved by
  the tick from one segment on \<open>(5, 5)\<close> with food 4 to two segments, head on
  \<open>(6, 5)\<close>, with food 3.
\<close>

theorem tick_after_kill_moves:
  "dead (kill (Snake_new (cell 0 5 5) 4 right)) \<and>
   Snake_tick (kill (Snake_new (cell 0 5 5) 4 right)) 1 =
     Some (None, (kill (Snake_new (cell 0 5 5) 4 right))\<lparr>segments := [cell 1 6 5, cell 0 5 5], food := 3\<rparr>, 2) \<and>
   segments (kill (Snake_new (cell 0 5 5) 4 right)) = [cell 0 5 5] \<and>
   food (kill (Snake_new (cell 0 5 5) 4 right)) = 4 \<and>
   Snake_tick (kill (Snake_new (cell 0 5 5) 4 right)) 1 \<noteq>
     Some (None, kill (Snake_new (cell 0 5 5) 4 right), 1)"
  by (simp add: Snake_tick_cell kill_def Snake_new_def right_def Direction_new_def)

section \<open>Sequences of calls on a snake\<close>

lemma calls_growth:
  "snake_ok s \<Longrightarrow> list_all (\<lambda>c. \<not> is_eat c) cs \<Longrightarrow> list_all call_ok cs \<Longrightarrow>
   \<exists>s' h'. calls cs s h = Some (None, s', h') \<and> snake_ok s' \<and>
     length (segments s') = length (segments s) + min (ticks cs) (nat (food s))"
proof (induction cs arbitrary: s h)
  case Nil
  then show ?case by simp
next
  case (Cons c cs)
  show ?case
  proof (cases c)
    case Tick
    from Snake_tick_ok [OF Cons.prems(1), of h] obtain s1 where
      s1: "Snake_tick s h = Some (None, s1, Suc h)" "snake_ok s1"
          "food s1 = (if 0 < food s then food s - 1 else food s)"
          "length (segments s1) = (if 0 < food s then Suc (length (segments s)) else length (segments s))"
      by blast
    from Cons.prems(2,3) have "list_all (\<lambda>c. \<not> is_eat c) cs" "list_all call_ok cs" by simp_all
    from Cons.IH [OF s1(2) this, of "Suc h"] obtain s' h' where
      s': "calls cs s1 (Suc h) = Some (None, s', h')" "snake_ok s'"
          "length (segments s') = length (segments s1) + min (ticks cs) (nat (food s1))" by blast
    have "length (segments s') = length (segments s) + min (ticks (c # cs)) (nat (food s))"
      unfolding s'(3) s1(3) s1(4) Tick by (cases "0 < food s") (auto simp: min_def)
    with s1(1) s'(1) s'(2) Tick show ?thesis by simp
  next
    case (Eat x)
    with Cons.prems(2) show ?thesis by simp
  next
    case Kill
    from Cons.prems have "snake_ok (kill s)" "list_all (\<lambda>c. \<not> is_eat c) cs" "list_all call_ok cs"
      by (simp_all add: snake_ok_updates)
    from Cons.IH [OF this, of h] Kill show ?thesis by (simp add: kill_def)
  next
    case (SetDirection d)
    from Cons.prems SetDirection have "snake_ok (set_direction s d)"
      "list_all (\<lambda>c. \<not> is_eat c) cs" "list_all call_ok cs"
      by (simp_all add: snake_ok_updates)
    from Cons.IH [OF this, of h] SetDirection show ?thesis by (simp add: set_direction_def)
  qed
qed

text \<open>
  C3. Take a snake with no food pending (head present, non-empty domains, \<open>safe\<close>
  numbers) and let it eat a cheese of food value \<open>f > 0\<close>. After any further calls
  that contain no \<^verbatim>\<open>eat\<close>, \<open>n\<close> of them ticks, the segment count has grown by
  \<open>min n f\<close>: by one with each of the first \<open>f\<close> ticks and not at all after them,
  \<open>f\<close> in total. Turns to \<open>safe\<close> directions and \<^verbatim>\<open>kill\<close> between the ticks
  make no difference.
\<close>

theorem eat_growth:
  assumes "snake_ok s" and "food s = 0" and "0 < cheese_food c"
    and "list_all (\<lambda>c. \<not> is_eat c) cs" and "list_all call_ok cs"
  shows "\<exists>s' h'. calls cs (eat s c) h = Some (None, s', h') \<and>
           length (segments s') = length (segments s) + min (ticks cs) (nat (cheese_food c))"
proof -
  from assms(1) have "snake_ok (eat s c)" by (simp add: snake_ok_updates)
  from calls_growth [OF this assms(4,5), of h] assms(2) show ?thesis
    by (auto simp: eat_def)
qed

theorem eat_growth_witness:
  "snake_ok (snake_at [cell 0 5 5] 0) \<and> food (snake_at [cell 0 5 5] 0) = 0 \<and>
   0 < cheese_food \<lparr>cheese_position = cell 1 7 5, cheese_food = 2\<rparr> \<and>
   list_all (\<lambda>c. \<not> is_eat c) [Tick, SetDirection down, Tick, Kill, Tick] \<and>
   list_all call_ok [Tick, SetDirection down, Tick, Kill, Tick] \<and>
   (\<exists>s' h'. calls [Tick, SetDirection down, Tick, Kill, Tick]
               (eat (snake_at [cell 0 5 5] 0) \<lparr>cheese_position = cell 1 7 5, cheese_food = 2\<rparr>) 2
               = Some (None, s', h') \<and>
             length (segments s') = 3)"
proof -
  have ok: "snake_ok (snake_at [cell 0 5 5] 0)"
    by (simp add: snake_ok_def snake_at_def cell_fields context_ok_game safe_constants
        direction_ok_units)
  have f: "food (snake_at [cell 0 5 5] 0) = 0" by (simp add: snake_at_def)
  have c: "0 < cheese_food \<lparr>cheese_position = cell 1 7 5, cheese_food = 2\<rparr>" by simp
  have n: "list_all (\<lambda>c. \<not> is_eat c) [Tick, SetDirection down, Tick, Kill, Tick]" by simp
  have k: "list_all call_ok [Tick, SetDirection down, Tick, Kill, Tick]"
    by (simp add: direction_ok_units)
  from eat_growth [OF ok f c n k, of 2] show ?thesis using ok f c n k
    by (auto simp: snake_at_def)
qed

lemma calls_ok:
  "snake_ok s \<Longrightarrow> list_all call_ok cs \<Longrightarrow>
   \<exists>s' h'. calls cs s h = Some (None, s', h') \<and> snake_ok s'"
proof (induction cs arbitrary: s h)
  case Nil
  then show ?case by simp
next
  case (Cons c cs)
  show ?case
  proof (cases c)
    case Tick
    from Snake_tick_ok [OF Cons.prems(1), of h] obtain s1 where
      s1: "Snake_tick s h = Some (None, s1, Suc h)" "snake_ok s1" by blast
    from Cons.prems(2) have "list_all call_ok cs" by simp
    from Cons.IH [OF s1(2) this, of "Suc h"] s1(1) Tick show ?thesis by simp
  next
    case (Eat x)
    from Cons.prems have "snake_ok (eat s x)" "list_all call_ok cs" by (simp_all add: snake_ok_updates)
    from Cons.IH [OF this, of h] Eat show ?thesis by simp
  next
    case Kill
    from Cons.prems have "snake_ok (kill s)" "list_all call_ok cs" by (simp_all add: snake_ok_updates)
    from Cons.IH [OF this, of h] Kill show ?thesis by simp
  next
    case (SetDirection d)
    from Cons.prems SetDirection have "snake_ok (set_direction s d)" "list_all call_ok cs"
      by (simp_all add: snake_ok_updates)
    from Cons.IH [OF this, of h] SetDirection show ?thesis by simp
  qed
qed

lemma Snake_tick_nonempty:
  assumes "segments s \<noteq> []" and "Snake_tick s h = Some (e, s', h')"
  shows "e = None \<and> segments s' \<noteq> []"
proof -
  from assms(1) obtain p ps where s: "segments s = p # ps" by (cases "segments s") auto
  then have hd: "head (commit_direction s) = Some p"
    by (simp add: commit_direction_fields head_Cons)
  from assms(2) show ?thesis
    unfolding Snake_tick_def Let_def hd
    by (auto simp: commit_direction_fields s split: option.splits sum.splits if_splits)
qed

lemma calls_nonempty:
  "segments s \<noteq> [] \<Longrightarrow> calls cs s h = Some (e, s', h') \<Longrightarrow> e = None \<and> segments s' \<noteq> []"
proof (induction cs arbitrary: s h)
  case Nil
  then show ?case by simp
next
  case (Cons c cs)
  show ?case
  proof (cases c)
    case Tick
    with Cons.prems(2) obtain e1 s1 h1 where
      t: "Snake_tick s h = Some (e1, s1, h1)"
      by (auto split: option.splits)
    from Snake_tick_nonempty [OF Cons.prems(1) t] have e1: "e1 = None" "segments s1 \<noteq> []" by simp_all
    from Cons.prems(2) Tick t e1 have "calls cs s1 h1 = Some (e, s', h')" by simp
    from Cons.IH [OF e1(2) this] show ?thesis .
  next
    case (Eat x)
    from Cons.prems Eat have "segments (eat s x) \<noteq> []" "calls cs (eat s x) h = Some (e, s', h')"
      by (simp_all add: eat_def)
    from Cons.IH [OF this] show ?thesis .
  next
    case Kill
    from Cons.prems Kill have "segments (kill s) \<noteq> []" "calls cs (kill s) h = Some (e, s', h')"
      by (simp_all add: kill_def)
    from Cons.IH [OF this] show ?thesis .
  next
    case (SetDirection d)
    from Cons.prems SetDirection have "segments (set_direction s d) \<noteq> []"
      "calls cs (set_direction s d) h = Some (e, s', h')"
      by (simp_all add: set_direction_def)
    from Cons.IH [OF this] show ?thesis .
  qed
qed

text \<open>
  C10. A snake has one segment right after construction. Whatever calls of
  \<^verbatim>\<open>tick\<close>, \<^verbatim>\<open>eat\<close>, \<^verbatim>\<open>kill\<close> and the direction setter follow, no call throws,
  and in the state they leave the segment list is not empty, so the head is a
  position. When the start position lives in a context with non-empty domains and the
  numbers of the start position and of the directions are \<open>safe\<close>, every such
  sequence of calls does return.
\<close>

theorem segments_never_empty:
  "segments (Snake_new start f d) \<noteq> [] \<and>
   (\<forall>e s' h'. calls cs (Snake_new start f d) h = Some (e, s', h') \<longrightarrow>
       e = None \<and> segments s' \<noteq> [] \<and> head s' \<noteq> None) \<and>
   (snake_ok (Snake_new start f d) \<and> list_all call_ok cs \<longrightarrow>
      (\<exists>s' h'. calls cs (Snake_new start f d) h = Some (None, s', h')))"
proof -
  have ne: "segments (Snake_new start f d) \<noteq> []" by (simp add: Snake_new_def)
  have "e = None \<and> segments s' \<noteq> [] \<and> head s' \<noteq> None"
    if "calls cs (Snake_new start f d) h = Some (e, s', h')" for e s' h'
    using calls_nonempty [OF ne that] by (cases "segments s'") (auto simp: head_def)
  moreover have "\<exists>s' h'. calls cs (Snake_new start f d) h = Some (None, s', h')"
    if "snake_ok (Snake_new start f d) \<and> list_all call_ok cs"
  proof -
    from that have "snake_ok (Snake_new start f d)" "list_all call_ok cs" by simp_all
    from calls_ok [OF this, of h] show ?thesis by blast
  qed
  ultimately show ?thesis using ne by blast
qed

theorem segments_never_empty_witness:
  "snake_ok (Snake_new (cell 0 5 5) 4 right) \<and> list_all call_ok [Tick, SetDirection up, Kill, Tick] \<and>
   (\<exists>s' h'. calls [Tick, SetDirection up, Kill, Tick] (Snake_new (cell 0 5 5) 4 right) 1
                = Some (None, s', h') \<and>
       segments s' \<noteq> [] \<and> head s' \<noteq> None)"
proof -
  have ok: "snake_ok (Snake_new (cell 0 5 5) 4 right)" by (rule snake_ok_game)
  have k: "list_all call_ok [Tick, SetDirection up, Kill, Tick]" by (simp add: direction_ok_units)
  from segments_never_empty [of "cell 0 5 5" 4 right "[Tick, SetDirection up, Kill, Tick]" 1] ok k
  show ?thesis by blast
qed

text \<open>
  C9, as the code has it. \<^verbatim>\<open>new Snake(start, 4, right)\<close> on the 20 by 20 grid
  starts with one segment, on \<open>(5, 5)\<close>, and food 4. After one tick the head is on
  \<open>(6, 5)\<close>, there are 2 segments and food is 3. After four more ticks there are 5
  segments (1 at the start and 4 from the food), food is 0 and the head is on
  \<open>(10, 5)\<close>; a sixth tick moves the head to \<open>(11, 5)\<close> and leaves 5 segments.
\<close>

theorem session_scenario:
  "Position_new (Num 5) (Num 5) game_context 0 = Some (cell 0 5 5, 1) \<and>
   Snake_new (cell 0 5 5) 4 right = snake_at [cell 0 5 5] 4 \<and>
   calls [Tick] (snake_at [cell 0 5 5] 4) 1 = Some (None, snake_at [cell 1 6 5, cell 0 5 5] 3, 2) \<and>
   calls [Tick, Tick, Tick, Tick, Tick] (snake_at [cell 0 5 5] 4) 1 =
     Some (None, snake_at [cell 5 10 5, cell 4 9 5, cell 3 8 5, cell 2 7 5, cell 1 6 5] 0, 6) \<and>
   calls [Tick, Tick, Tick, Tick, Tick, Tick] (snake_at [cell 0 5 5] 4) 1 =
     Some (None, snake_at [cell 6 11 5, cell 5 10 5, cell 4 9 5, cell 3 8 5, cell 2 7 5] 0, 7)"
  by (simp add: session_start tick_right) (simp add: Snake_new_def snake_at_def eval_nat_numeral)

text \<open>
  C9 as stated fails on the segment counts: after the first tick the snake of the
  session has 2 segments, not 5, and after five ticks it has 5, not 8.
\<close>

theorem session_counts_differ:
  "calls [Tick] (Snake_new (cell 0 5 5) 4 right) 1 = Some (None, snake_at [cell 1 6 5, cell 0 5 5] 3, 2) \<and>
   length (segments (snake_at [cell 1 6 5, cell 0 5 5] 3)) \<noteq> 5 \<and>
   calls [Tick, Tick, Tick, Tick, Tick] (Snake_new (cell 0 5 5) 4 right) 1 =
     Some (None, snake_at [cell 5 10 5, cell 4 9 5, cell 3 8 5, cell 2 7 5, cell 1 6 5] 0, 6) \<and>
   length (segments (snake_at [cell 5 10 5, cell 4 9 5, cell 3 8 5, cell 2 7 5, cell 1 6 5] 0)) \<noteq> 8"
proof -
  have new: "Snake_new (cell 0 5 5) 4 right = snake_at [cell 0 5 5] 4"
    by (simp add: Snake_new_def snake_at_def)
  show ?thesis
    unfolding new
    by (simp add: tick_right) (simp add: snake_at_def eval_nat_numeral)
qed

section \<open>Where the cheese is put\<close>

lemma not_on_snake:
  "list_all (\<lambda>seg. \<not> equals seg (ATuple x y)) (segments s) = ((x, y) \<notin> occupied s)"
  by (auto simp: occupied_def list_all_iff)

lemma set_possible:
  "set (possible f s) =
     ({fst (domain (ctx_x (f_positionContext f))) .. snd (domain (ctx_x (f_positionContext f))) - 1} \<times>
      {fst (domain (ctx_y (f_positionContext f))) .. snd (domain (ctx_y (f_positionContext f))) - 1})
     - occupied s"
  by (auto simp: possible_def not_on_snake simp del: equals.simps)

lemma card_grid:
  "card ({fst (domain (ctx_x (f_positionContext f))) .. snd (domain (ctx_x (f_positionContext f))) - 1} \<times>
      {fst (domain (ctx_y (f_positionContext f))) .. snd (domain (ctx_y (f_positionContext f))) - 1}) = cells f"
  by (simp add: cells_def card_cartesian_product)

text \<open>A snake on fewer cells than the grid has leaves a free cell.\<close>

lemma possible_nonempty:
  assumes "card (occupied s) < cells f"
  shows "possible f s \<noteq> []"
proof
  assume "possible f s = []"
  then have "set (possible f s) = {}" by simp
  then have "{fst (domain (ctx_x (f_positionContext f))) .. snd (domain (ctx_x (f_positionContext f))) - 1} \<times>
      {fst (domain (ctx_y (f_positionContext f))) .. snd (domain (ctx_y (f_positionContext f))) - 1}
      \<subseteq> occupied s"
    unfolding set_possible by blast
  moreover have "finite (occupied s)" by (simp add: occupied_def)
  ultimately have "cells f \<le> card (occupied s)"
    unfolding card_grid [symmetric] by (rule card_mono [rotated])
  with assms show False by simp
qed

lemma choice_in_range:
  assumes "random_ok r" and "0 < n"
  shows "0 \<le> \<lfloor>r * of_nat n\<rfloor> \<and> \<lfloor>r * of_nat n\<rfloor> < int n"
proof -
  from assms have "0 \<le> r * of_nat n" by (simp add: random_ok_def)
  moreover from assms have "r * of_nat n < of_nat n" by (simp add: random_ok_def)
  ultimately show ?thesis by (simp add: floor_less_iff)
qed

lemma generatePosition_cases:
  "generatePosition f s r h = Some (Inl TypeError) \<or>
   (\<exists>x y. (x, y) \<in> set (possible f s) \<and>
      generatePosition f s r h =
        Some (Inr (\<lparr>oid = h, pos_x = x, pos_y = y, pos_context = f_positionContext f\<rparr>, Suc h)))"
proof (cases "0 \<le> \<lfloor>r * of_nat (length (possible f s))\<rfloor> \<and>
              \<lfloor>r * of_nat (length (possible f s))\<rfloor> < int (length (possible f s))")
  case False
  then have "generatePosition f s r h = Some (Inl TypeError)"
    unfolding generatePosition_def Let_def by (rule if_not_P)
  then show ?thesis ..
next
  case True
  define xy where "xy = possible f s ! nat \<lfloor>r * of_nat (length (possible f s))\<rfloor>"
  from True have mem: "xy \<in> set (possible f s)" unfolding xy_def by (intro nth_mem) linarith
  then have "Position_new (Num (fst xy)) (Num (snd xy)) (f_positionContext f) h =
     Some (\<lparr>oid = h, pos_x = fst xy, pos_y = snd xy, pos_context = f_positionContext f\<rparr>, Suc h)"
    unfolding set_possible by (intro Position_new_inside) auto
  with True have "generatePosition f s r h =
        Some (Inr (\<lparr>oid = h, pos_x = fst xy, pos_y = snd xy, pos_context = f_positionContext f\<rparr>, Suc h))"
    by (simp add: generatePosition_def Let_def xy_def)
  with mem show ?thesis by (metis prod.collapse)
qed

lemma generatePosition_returns:
  assumes "possible f s \<noteq> []" and "random_ok r"
  shows "\<exists>x y. (x, y) \<in> set (possible f s) \<and>
      generatePosition f s r h =
        Some (Inr (\<lparr>oid = h, pos_x = x, pos_y = y, pos_context = f_positionContext f\<rparr>, Suc h))"
proof -
  from assms(1) have "0 < length (possible f s)" by simp
  from choice_in_range [OF assms(2) this]
  have "generatePosition f s r h \<noteq> Some (Inl TypeError)"
    by (auto simp: generatePosition_def Let_def split: option.splits)
  with generatePosition_cases [of f s r h] show ?thesis by blast
qed

lemma generatePosition_full:
  "possible f s = [] \<Longrightarrow> generatePosition f s r h = Some (Inl TypeError)"
  by (simp add: generatePosition_def)

lemma createCheese_cases:
  "createCheese f s r1 r2 h = Some (Inl TypeError) \<or>
   (\<exists>c. createCheese f s r1 r2 h = Some (Inr (c, Suc h)))"
  using generatePosition_cases [of f s r1 h] by (auto simp: createCheese_def)

lemma createCheese_full:
  "possible f s = [] \<Longrightarrow> createCheese f s r1 r2 h = Some (Inl TypeError)"
  by (simp add: createCheese_def generatePosition_full)

text \<open>
  C5. When the snake lies on fewer cells than the grid of the factory has, then for
  every first draw \<open>r1\<close> in \<open>[0, 1)\<close> and every second draw, \<^verbatim>\<open>createCheese\<close>
  returns a cheese, and no segment of the snake \<^verbatim>\<open>equals\<close> its position.
\<close>

theorem cheese_off_snake:
  assumes "card (occupied s) < cells f" and "random_ok r1"
  shows "\<exists>c. createCheese f s r1 r2 h = Some (Inr (c, Suc h)) \<and>
           list_all (\<lambda>seg. \<not> equals seg (APosition (cheese_position c))) (segments s) \<and>
           (pos_x (cheese_position c), pos_y (cheese_position c)) \<notin> occupied s"
proof -
  from generatePosition_returns [OF possible_nonempty [OF assms(1)] assms(2), of h]
  obtain x y where xy: "(x, y) \<in> set (possible f s)"
    "generatePosition f s r1 h =
        Some (Inr (\<lparr>oid = h, pos_x = x, pos_y = y, pos_context = f_positionContext f\<rparr>, Suc h))"
    by blast
  from xy(1) have off: "(x, y) \<notin> occupied s" unfolding set_possible by simp
  then have "list_all (\<lambda>seg. \<not> equals seg
      (APosition \<lparr>oid = h, pos_x = x, pos_y = y, pos_context = f_positionContext f\<rparr>)) (segments s)"
    by (auto simp: occupied_def list_all_iff)
  with xy(2) off show ?thesis by (simp add: createCheese_def)
qed

theorem cheese_off_snake_witness:
  "card (occupied (snake_at [cell 1 6 5, cell 0 5 5] 3)) < cells game_factory \<and> random_ok (1/2) \<and>
   (\<exists>c. createCheese game_factory (snake_at [cell 1 6 5, cell 0 5 5] 3) (1/2) (1/3) 2 = Some (Inr (c, 3)) \<and>
        (pos_x (cheese_position c), pos_y (cheese_position c)) \<notin> {(6, 5), (5, 5)})"
proof -
  have occ: "occupied (snake_at [cell 1 6 5, cell 0 5 5] 3) = {(6, 5), (5, 5)}"
    by (simp add: occupied_def snake_at_def cell_fields)
  have k: "card (occupied (snake_at [cell 1 6 5, cell 0 5 5] 3)) < cells game_factory"
    unfolding occ by (simp add: cells_def game_factory_def game_domain)
  have r: "random_ok (1/2)" by (simp add: random_ok_def)
  from cheese_off_snake [OF k r, of "1/3" 2] show ?thesis using k r unfolding occ
    by (auto simp: eval_nat_numeral)
qed

lemma possible_full: "possible game_factory (snake_at full_board f) = []"
proof -
  have "{0..19} \<times> {0..19} \<subseteq> occupied (snake_at full_board f)"
  proof
    fix p :: "int \<times> int" assume p: "p \<in> {0..19} \<times> {0..19}"
    obtain a b where ab: "p = (a, b)" by (cases p)
    with p have r: "0 \<le> a" "a \<le> 19" "0 \<le> b" "b \<le> 19" by auto
    define y where "y = (if even a then b else 19 - b)"
    from r have "0 \<le> y" "y \<le> 19" "b = (if even a then y else 19 - y)" by (auto simp: y_def)
    with r show "p \<in> occupied (snake_at full_board f)"
      unfolding ab occupied_def snake_at_def full_board_def
      by (auto simp: cell_fields image_iff intro!: bexI [of _ a] bexI [of _ y])
  qed
  then have "set (possible game_factory (snake_at full_board f)) = {}"
    unfolding set_possible by (auto simp: game_factory_def game_domain)
  then show ?thesis by simp
qed

text \<open>
  C8 fails on the code. With the 400 segments of \<open>full_board\<close> on the 20 by 20 grid
  no cell is free; \<^verbatim>\<open>generatePosition\<close> then reads \<^verbatim>\<open>possible[0]\<close> of the empty
  list and \<^verbatim>\<open>createCheese\<close> ends in the TypeError of reading \<^verbatim>\<open>[0]\<close> of
  \<^verbatim>\<open>undefined\<close>, not in an outcome of its own for a full board.
\<close>

theorem createCheese_full_board:
  "length full_board = 400 \<and> possible game_factory (snake_at full_board 0) = [] \<and>
   createCheese game_factory (snake_at full_board 0) (1/2) (1/2) 400 = Some (Inl TypeError)"
  by (simp add: createCheese_full possible_full)
     (simp add: full_board_def length_concat comp_def sum_list_triv)

section \<open>The orchestration step\<close>

text \<open>
  The head made by a tick is a new object, so the test \<^verbatim>\<open>_ !== head\<close> leaves out
  the first segment and no other.
\<close>

lemma self_collision_fresh:
  assumes "segments s = q # rest" and "list_all (\<lambda>p. oid p \<noteq> oid q) rest"
  shows "self_collision s = body_hits_head s"
proof -
  have "list_ex (\<lambda>seg. oid seg \<noteq> oid q \<and> pos_x q = pos_x seg \<and> pos_y q = pos_y seg) rest =
        list_ex (\<lambda>seg. pos_x seg = pos_x q \<and> pos_y seg = pos_y q) rest"
    using assms(2) unfolding list_ex_iff list_all_iff by (metis (no_types))
  then show ?thesis
    using assms(1) by (simp add: self_collision_def body_hits_head_def head_Cons)
qed

lemma Snake_tick_fresh:
  assumes "snake_ok s" and "fresh_objects s h"
  shows "\<exists>s'. Snake_tick s h = Some (None, s', Suc h) \<and> snake_ok s' \<and> fresh_objects s' (Suc h) \<and>
              dead s' = dead s \<and> died s' = died s \<and>
              self_collision s' = body_hits_head s'"
proof -
  from assms(1) obtain p ps where s: "segments s = p # ps" by (rule snake_okE)
  from Snake_tick_returns [OF assms(1) s, of h] obtain q where
    q: "oid q = h" "pos_context q = pos_context p" "safe (pos_x q)" "safe (pos_y q)"
       "Snake_tick s h =
               Some (None,
                     (if 0 < food s
                      then (commit_direction s)\<lparr>segments := q # p # ps, food := food s - 1\<rparr>
                      else (commit_direction s)\<lparr>segments := q # butlast (p # ps)\<rparr>),
                     Suc h)" by blast
  define s' where "s' = (if 0 < food s
                      then (commit_direction s)\<lparr>segments := q # p # ps, food := food s - 1\<rparr>
                      else (commit_direction s)\<lparr>segments := q # butlast (p # ps)\<rparr>)"
  define rest where "rest = (if 0 < food s then p # ps else butlast (p # ps))"
  have segs: "segments s' = q # rest" by (simp add: s'_def rest_def)
  have sub: "set rest \<subseteq> set (p # ps)"
    unfolding rest_def by (auto dest: in_set_butlastD)
  from assms(2) s have old: "distinct (map oid (p # ps))" "\<forall>x \<in> set (p # ps). oid x < h"
    by (simp_all add: fresh_objects_def list_all_iff)
  have drest: "distinct (map oid rest)"
    unfolding rest_def using old(1) by (auto simp: map_butlast distinct_butlast simp del: butlast.simps)
  from sub old(2) have lt: "\<forall>x \<in> set rest. oid x < h" by blast
  then have ne: "list_all (\<lambda>x. oid x \<noteq> oid q) rest" by (auto simp: list_all_iff q(1))
  have fresh: "fresh_objects s' (Suc h)"
    using drest lt by (auto simp: fresh_objects_def segs q(1) list_all_iff less_Suc_eq)
  have ok: "snake_ok s'"
    unfolding s'_def using snake_ok_moved [OF assms(1) s q(2-4)] by simp
  have flags: "dead s' = dead s" "died s' = died s"
    by (simp_all add: s'_def commit_direction_fields)
  from q(5) have "Snake_tick s h = Some (None, s', Suc h)" by (simp add: s'_def)
  with ok fresh flags self_collision_fresh [OF segs ne] show ?thesis by blast
qed

lemma kill_fields:
  "segments (kill s) = segments s" "dead (kill s) = True" "died (kill s) = Suc (died s)"
  "head (kill s) = head s" "fresh_objects (kill s) h = fresh_objects s h"
  "body_hits_head (kill s) = body_hits_head s"
  by (simp_all add: kill_def head_def fresh_objects_def body_hits_head_def)

lemma eat_fields:
  "segments (eat s c) = segments s" "dead (eat s c) = dead s" "died (eat s c) = died s"
  "head (eat s c) = head s" "fresh_objects (eat s c) h = fresh_objects s h"
  "body_hits_head (eat s c) = body_hits_head s"
  by (simp_all add: eat_def head_def fresh_objects_def body_hits_head_def)

lemma fresh_objects_mono: "fresh_objects s h \<Longrightarrow> fresh_objects s (Suc h)"
  by (auto simp: fresh_objects_def list_all_iff)

lemma AppComponent_tick_collision:
  assumes "snake_ok (snake app)" and "fresh_objects (snake app) (objects app)"
  shows "\<exists>e app'. AppComponent_tick app r1 r2 = Some (e, app') \<and>
           dead (snake app') = (dead (snake app) \<or> body_hits_head (snake app')) \<and>
           died (snake app') = died (snake app) + (if body_hits_head (snake app') then 1 else 0) \<and>
           snake_ok (snake app') \<and> fresh_objects (snake app') (objects app')"
proof -
  from Snake_tick_fresh [OF assms] obtain s1 where
    s1: "Snake_tick (snake app) (objects app) = Some (None, s1, Suc (objects app))"
        "snake_ok s1" "fresh_objects s1 (Suc (objects app))"
        "dead s1 = dead (snake app)" "died s1 = died (snake app)"
        "self_collision s1 = body_hits_head s1" by blast
  define s2 where "s2 = (if self_collision s1 then kill s1 else s1)"
  have s2: "dead s2 = (dead (snake app) \<or> body_hits_head s2)"
           "died s2 = died (snake app) + (if body_hits_head s2 then 1 else 0)"
           "snake_ok s2" "fresh_objects s2 (Suc (objects app))"
    using s1 by (simp_all add: s2_def kill_fields snake_ok_updates)
  show ?thesis
  proof (cases "equals (cheese_position (cheese app)) (as_other (head s2))")
    case False
    with s1(1) have "AppComponent_tick app r1 r2 =
        Some (None, app\<lparr>snake := s2, objects := Suc (objects app)\<rparr>)"
      by (simp add: AppComponent_tick_def s2_def)
    with s2 show ?thesis by simp
  next
    case True
    define s3 where "s3 = eat s2 (cheese app)"
    have s3: "dead s3 = (dead (snake app) \<or> body_hits_head s3)"
           "died s3 = died (snake app) + (if body_hits_head s3 then 1 else 0)"
           "snake_ok s3" "fresh_objects s3 (Suc (objects app))"
      using s2 by (simp_all add: s3_def eat_fields snake_ok_updates)
    from createCheese_cases [of "cheeseFactory app" s3 r1 r2 "Suc (objects app)"]
    show ?thesis
    proof
      assume "createCheese (cheeseFactory app) s3 r1 r2 (Suc (objects app)) = Some (Inl TypeError)"
      with s1(1) True have "AppComponent_tick app r1 r2 =
          Some (Some TypeError, app\<lparr>snake := s3, objects := Suc (objects app)\<rparr>)"
        by (simp add: AppComponent_tick_def s2_def s3_def)
      with s3 show ?thesis by simp
    next
      assume "\<exists>c. createCheese (cheeseFactory app) s3 r1 r2 (Suc (objects app)) =
                    Some (Inr (c, Suc (Suc (objects app))))"
      then obtain c where "createCheese (cheeseFactory app) s3 r1 r2 (Suc (objects app)) =
                    Some (Inr (c, Suc (Suc (objects app))))" ..
      with s1(1) True have "AppComponent_tick app r1 r2 =
          Some (None, app\<lparr>snake := s3, cheese := c, objects := Suc (Suc (objects app))\<rparr>)"
        by (simp add: AppComponent_tick_def s2_def s3_def)
      with s3 fresh_objects_mono [OF s3(4)] show ?thesis by simp
    qed
  qed
qed

lemma ex_le_Suc: "(\<exists>j \<le> Suc k. P j) = (P 0 \<or> (\<exists>j \<le> k. P (Suc j)))"
  by (metis Suc_le_mono le0 not0_implies_Suc)

lemma getNewDirection_ok: "getNewDirection key = Some d \<Longrightarrow> direction_ok d"
  by (auto simp: getNewDirection_def direction_ok_units split: if_splits)

lemma handleUserInput_ok:
  "snake_ok (snake app) \<Longrightarrow> snake_ok (snake (handleUserInput app key))"
  by (auto simp: handleUserInput_def snake_ok_updates dest: getNewDirection_ok split: option.splits)

lemma handleUserInput_fields:
  "fresh_objects (snake (handleUserInput app key)) (objects (handleUserInput app key)) =
     fresh_objects (snake app) (objects app)"
  "dead (snake (handleUserInput app key)) = dead (snake app)"
  by (simp_all add: handleUserInput_def set_direction_def fresh_objects_def
      split: option.splits)

lemma trace_dead:
  "snake_ok (snake app) \<Longrightarrow> fresh_objects (snake app) (objects app) \<Longrightarrow> k < length (trace es app) \<Longrightarrow>
   dead (snake (trace es app ! k)) =
     (dead (snake app) \<or> (\<exists>j \<le> k. body_hits_head (snake (trace es app ! j))))"
proof (induction es arbitrary: app k)
  case Nil
  then show ?case by simp
next
  case (Cons ev es)
  show ?case
  proof (cases ev)
    case (KeyDown key)
    from Cons.prems KeyDown have
      "snake_ok (snake (handleUserInput app key))"
      "fresh_objects (snake (handleUserInput app key)) (objects (handleUserInput app key))"
      "k < length (trace es (handleUserInput app key))"
      by (simp_all add: handleUserInput_fields handleUserInput_ok)
    from Cons.IH [OF this] KeyDown show ?thesis by (simp add: handleUserInput_fields)
  next
    case (TimerTick r1 r2)
    from AppComponent_tick_collision [OF Cons.prems(1,2), of r1 r2] obtain e app' where
      t: "AppComponent_tick app r1 r2 = Some (e, app')"
         "dead (snake app') = (dead (snake app) \<or> body_hits_head (snake app'))"
         "snake_ok (snake app')" "fresh_objects (snake app') (objects app')" by blast
    show ?thesis
    proof (cases e)
      case (Some err)
      with t(1) TimerTick have tr: "trace (ev # es) app = [app']" by simp
      with Cons.prems(3) have "k = 0" by simp
      with tr t(2) show ?thesis by simp
    next
      case None
      with t(1) TimerTick have tr: "trace (ev # es) app = app' # trace es app'" by simp
      show ?thesis
      proof (cases k)
        case 0
        with tr t(2) show ?thesis by simp
      next
        case (Suc k')
        with Cons.prems(3) tr have "k' < length (trace es app')" by simp
        from Cons.IH [OF t(3,4) this] t(2) show ?thesis
          unfolding tr Suc ex_le_Suc by simp
      qed
    qed
  qed
qed

text \<open>
  C4. Take a game whose snake has its head in a context with non-empty domains, with
  \<open>safe\<close> numbers, and whose segments are objects of their own. One call of \<^verbatim>\<open>AppComponent.tick\<close>
  ends, and it calls \<^verbatim>\<open>kill\<close> (one more notification on \<^verbatim>\<open>died$\<close>, dead flag
  set) exactly when, after the snake's tick, some segment behind the head lies on the
  head's cell; on a step where none does, nothing is flagged. Over successive timer
  ticks, with key presses between them, the snake is therefore dead after step \<open>k\<close>
  exactly when it was dead at the start or such a hit happened at some step up to
  \<open>k\<close>: from a living snake, on the first step with a hit, not earlier and not
  later.
\<close>

theorem dead_exactly_on_collision:
  assumes "snake_ok (snake app)" and "fresh_objects (snake app) (objects app)"
  shows "(\<exists>e app'. AppComponent_tick app r1 r2 = Some (e, app') \<and>
            dead (snake app') = (dead (snake app) \<or> body_hits_head (snake app')) \<and>
            died (snake app') = died (snake app) + (if body_hits_head (snake app') then 1 else 0)) \<and>
         (\<forall>k < length (trace es app).
            dead (snake (trace es app ! k)) =
              (dead (snake app) \<or> (\<exists>j \<le> k. body_hits_head (snake (trace es app ! j)))))"
  using AppComponent_tick_collision [OF assms, of r1 r2] trace_dead [OF assms, of _ es]
  by blast

lemma tick_loop5: "AppComponent_tick (loop_app loop5) 0 0 =
   Some (None, loop_app \<lparr>nextDirection = None, direction = up,
            segments = [cell 6 5 5, cell 4 5 6, cell 3 6 6, cell 2 6 5, cell 1 5 5],
            food = 0, dead = True, died = 1\<rparr> \<lparr>objects := 7\<rparr>)"
  by code_simp

lemma tick_loop4: "AppComponent_tick (loop_app loop4) 0 0 =
   Some (None, loop_app \<lparr>nextDirection = None, direction = up,
            segments = [cell 6 5 5, cell 3 5 6, cell 2 6 6, cell 1 6 5],
            food = 0, dead = False, died = 0\<rparr> \<lparr>objects := 7\<rparr>)"
  by code_simp

theorem dead_exactly_on_collision_witness:
  "snake_ok (snake (loop_app loop5)) \<and> fresh_objects (snake (loop_app loop5)) (objects (loop_app loop5)) \<and>
   (\<exists>e app'. AppComponent_tick (loop_app loop5) 0 0 = Some (e, app') \<and>
       body_hits_head (snake app') \<and> dead (snake app') \<and> died (snake app') = 1) \<and>
   0 < length (trace [KeyDown ''ArrowUp'', TimerTick 0 0] (loop_app loop5)) \<and>
   dead (snake (trace [KeyDown ''ArrowUp'', TimerTick 0 0] (loop_app loop5) ! 0)) \<and>
   snake_ok (snake (loop_app loop4)) \<and> fresh_objects (snake (loop_app loop4)) (objects (loop_app loop4)) \<and>
   (\<exists>e app'. AppComponent_tick (loop_app loop4) 0 0 = Some (e, app') \<and>
       \<not> body_hits_head (snake app') \<and> \<not> dead (snake app') \<and> died (snake app') = 0)"
proof -
  have ok5: "snake_ok (snake (loop_app loop5))"
    by (simp add: loop_app_def loop5_def snake_ok_def cell_fields context_ok_game safe_constants
        direction_ok_units safe_def)
  have fr5: "fresh_objects (snake (loop_app loop5)) (objects (loop_app loop5))"
    by (simp add: loop_app_def loop5_def fresh_objects_def cell_fields)
  have ok4: "snake_ok (snake (loop_app loop4))"
    by (simp add: loop_app_def loop4_def snake_ok_def cell_fields context_ok_game safe_constants
        direction_ok_units safe_def)
  have fr4: "fresh_objects (snake (loop_app loop4)) (objects (loop_app loop4))"
    by (simp add: loop_app_def loop4_def fresh_objects_def cell_fields)
  have b5: "body_hits_head \<lparr>nextDirection = None, direction = up,
            segments = [cell 6 5 5, cell 4 5 6, cell 3 6 6, cell 2 6 5, cell 1 5 5],
            food = 0, dead = True, died = 1\<rparr>"
    by (simp add: body_hits_head_def cell_fields)
  have b4: "\<not> body_hits_head \<lparr>nextDirection = None, direction = up,
            segments = [cell 6 5 5, cell 3 5 6, cell 2 6 6, cell 1 6 5],
            food = 0, dead = False, died = 0\<rparr>"
    by (simp add: body_hits_head_def cell_fields)
  have key: "handleUserInput (loop_app loop5) ''ArrowUp'' = loop_app loop5"
    by (simp add: handleUserInput_def getNewDirection_def loop_app_def loop5_def set_direction_def
        isTurn_def up_def left_def Direction_new_def)
  have tr: "trace [KeyDown ''ArrowUp'', TimerTick 0 0] (loop_app loop5) =
     [loop_app \<lparr>nextDirection = None, direction = up,
            segments = [cell 6 5 5, cell 4 5 6, cell 3 6 6, cell 2 6 5, cell 1 5 5],
            food = 0, dead = True, died = 1\<rparr> \<lparr>objects := 7\<rparr>]"
    by (simp add: key tick_loop5)
  from dead_exactly_on_collision [OF ok5 fr5, of 0 0 "[KeyDown ''ArrowUp'', TimerTick 0 0]"] b5
  have "(\<exists>e app'. AppComponent_tick (loop_app loop5) 0 0 = Some (e, app') \<and>
       body_hits_head (snake app') \<and> dead (snake app') \<and> died (snake app') = 1) \<and>
       0 < length (trace [KeyDown ''ArrowUp'', TimerTick 0 0] (loop_app loop5)) \<and>
       dead (snake (trace [KeyDown ''ArrowUp'', TimerTick 0 0] (loop_app loop5) ! 0))"
    unfolding tr tick_loop5 by (simp add: loop_app_def loop5_def)
  moreover from dead_exactly_on_collision [OF ok4 fr4, of 0 0 "[]"] b4
  have "\<exists>e app'. AppComponent_tick (loop_app loop4) 0 0 = Some (e, app') \<and>
       \<not> body_hits_head (snake app') \<and> \<not> dead (snake app') \<and> died (snake app') = 0"
    unfolding tick_loop4 by (simp add: loop_app_def loop4_def)
  ultimately show ?thesis using ok5 fr5 ok4 fr4 by blast
qed

text \<open>\<^verbatim>\<open>initGame\<close> sets up a game of this kind, with the cheese off the snake.\<close>

lemma initGame_ok:
  assumes "random_ok r1"
  shows "\<exists>app. initGame game_context game_factory r1 r2 0 = Some (Inr app) \<and>
           snake app = Snake_new (cell 0 5 5) 4 right \<and>
           snake_ok (snake app) \<and> fresh_objects (snake app) (objects app) \<and>
           \<not> equals (cheese_position (cheese app)) (APosition (cell 0 5 5))"
proof -
  define sn where "sn = Snake_new (cell 0 5 5) 4 right"
  have segs: "segments sn = [cell 0 5 5]" by (simp add: sn_def Snake_new_def)
  have k: "card (occupied sn) < cells game_factory"
    by (simp add: occupied_def segs cells_def game_factory_def game_domain)
  from generatePosition_returns [OF possible_nonempty [OF k] assms, of 1]
  obtain x y where xy: "(x, y) \<in> set (possible game_factory sn)"
    "generatePosition game_factory sn r1 1 =
        Some (Inr (\<lparr>oid = 1, pos_x = x, pos_y = y, pos_context = f_positionContext game_factory\<rparr>, Suc 1))"
    by blast
  from xy(1) have ne: "\<not> (x = 5 \<and> y = 5)"
    unfolding set_possible by (auto simp: occupied_def segs cell_fields)
  have ok: "snake_ok sn" unfolding sn_def by (rule snake_ok_game)
  have fr: "fresh_objects sn (Suc 1)" by (simp add: fresh_objects_def segs cell_fields)
  from xy(2) have "initGame game_context game_factory r1 r2 0 =
     Some (Inr \<lparr>cheeseFactory = game_factory,
                cheese = \<lparr>cheese_position = \<lparr>oid = 1, pos_x = x, pos_y = y,
                                              pos_context = f_positionContext game_factory\<rparr>,
                          cheese_food = \<lfloor>r2 * of_int (snd (f_food game_factory) - fst (f_food game_factory))\<rfloor>
                                        + fst (f_food game_factory)\<rparr>,
                snake = sn, positionContext = game_context, objects = Suc 1\<rparr>)"
    by (simp add: initGame_def session_start createCheese_def sn_def)
  with ok fr ne show ?thesis by (auto simp: sn_def cell_fields)
qed

end
